theory Spec2Isabelle
  imports Complex_Main "HOL-Library.AList"
begin

section \<open>Go strings\<close>

text \<open>
  A Go \<^verbatim>\<open>string\<close> is a sequence of bytes; \<^typ>\<open>string\<close> is a list of 8-bit characters,
  so \<^term>\<open>length\<close> is Go's \<^verbatim>\<open>len\<close> and \<^term>\<open>take\<close>/\<^term>\<open>drop\<close> are slices.

  The separators the parser looks for (\<^verbatim>\<open>: | , # = @\<close> and the newline) are ASCII. Go's
  \<^verbatim>\<open>for i, c := range s\<close> decodes runes, but a byte below \<^verbatim>\<open>0x80\<close> is never part of a
  multi-byte sequence and is always yielded as itself at its own byte index, so looking for
  the first ASCII rune is looking for the first such byte.
\<close>

text \<open>\<^verbatim>\<open>strings.Split(s, sep)\<close> for a one-byte separator: all the pieces, empty ones included.\<close>

fun Split :: "string \<Rightarrow> char \<Rightarrow> string list" where
  "Split [] sep = [[]]"
| "Split (c # cs) sep =
     (if c = sep then [] # Split cs sep
      else (case Split cs sep of [] \<Rightarrow> [[c]] | p # ps \<Rightarrow> (c # p) # ps))"

text \<open>\<^verbatim>\<open>strings.SplitN(s, sep, 2)\<close> for a one-byte separator: cut at the first separator only.\<close>

definition SplitN2 :: "string \<Rightarrow> char \<Rightarrow> string list" where
  "SplitN2 s sep =
     (if sep \<in> set s
      then [takeWhile (\<lambda>c. c \<noteq> sep) s, drop 1 (dropWhile (\<lambda>c. c \<noteq> sep) s)]
      else [s])"

definition HasPrefix :: "string \<Rightarrow> string \<Rightarrow> bool" where
  "HasPrefix s p = (take (length p) s = p)"

text \<open>\<^verbatim>\<open>strings.Contains(s, substr)\<close>.\<close>

fun Contains :: "string \<Rightarrow> string \<Rightarrow> bool" where
  "Contains [] sub = (sub = [])"
| "Contains (c # cs) sub = (HasPrefix (c # cs) sub \<or> Contains cs sub)"

text \<open>\<^verbatim>\<open>strings.Index(s, substr)\<close> for a one-byte \<^verbatim>\<open>substr\<close>: the first position, or -1.\<close>

definition Index :: "string \<Rightarrow> char \<Rightarrow> int" where
  "Index s c = (if c \<in> set s then int (length (takeWhile (\<lambda>d. d \<noteq> c) s)) else - 1)"

subsection \<open>\<^verbatim>\<open>utf8.ValidString\<close>\<close>

text \<open>
  The well-formed byte sequences of UTF-8 as the Go library accepts them: no overlong
  forms, no surrogates, nothing above U+10FFFF. \<open>utf8_width a bs\<close> is the number of bytes
  of the encoding that starts with the byte \<open>a\<close> followed by \<open>bs\<close>, or 0 when there is none.
\<close>

definition utf8_cont :: "nat \<Rightarrow> bool" where
  "utf8_cont b = (0x80 \<le> b \<and> b \<le> 0xBF)"

definition utf8_width :: "nat \<Rightarrow> nat list \<Rightarrow> nat" where
  "utf8_width a bs =
     (if a < 0x80 then 1
      else if 0xC2 \<le> a \<and> a \<le> 0xDF then
        (case bs of b1 # _ \<Rightarrow> if utf8_cont b1 then 2 else 0 | _ \<Rightarrow> 0)
      else if 0xE0 \<le> a \<and> a \<le> 0xEF then
        (case bs of b1 # b2 # _ \<Rightarrow>
           if (if a = 0xE0 then 0xA0 \<le> b1 \<and> b1 \<le> 0xBF
               else if a = 0xED then 0x80 \<le> b1 \<and> b1 \<le> 0x9F
               else utf8_cont b1) \<and> utf8_cont b2
           then 3 else 0
         | _ \<Rightarrow> 0)
      else if 0xF0 \<le> a \<and> a \<le> 0xF4 then
        (case bs of b1 # b2 # b3 # _ \<Rightarrow>
           if (if a = 0xF0 then 0x90 \<le> b1 \<and> b1 \<le> 0xBF
               else if a = 0xF4 then 0x80 \<le> b1 \<and> b1 \<le> 0x8F
               else utf8_cont b1) \<and> utf8_cont b2 \<and> utf8_cont b3
           then 4 else 0
         | _ \<Rightarrow> 0)
      else 0)"

fun valid_utf8 :: "nat list \<Rightarrow> bool" where
  "valid_utf8 [] = True"
| "valid_utf8 (a # bs) =
     (let n = utf8_width a bs in 0 < n \<and> valid_utf8 (drop (n - 1) bs))"

definition ValidString :: "string \<Rightarrow> bool" where
  "ValidString s = valid_utf8 (map of_char s)"

section \<open>float64\<close>

text \<open>
  The values of an IEEE-754 binary64: a finite value is held as the rational it denotes
  (\<open>Finite 0\<close> is +0, \<open>NegZero\<close> is -0). Results of arithmetic are rounded to nearest,
  ties to even, as the hardware does.
\<close>

datatype float64 = Finite rat | NegZero | PosInf | NegInf | NaN

definition pow2 :: "int \<Rightarrow> rat" where
  "pow2 k = (if 0 \<le> k then 2 ^ nat k else 1 / 2 ^ nat (- k))"

text \<open>The number of binary digits of a positive integer.\<close>

function bitlen :: "int \<Rightarrow> int" where
  "bitlen n = (if n \<le> 0 then 0 else 1 + bitlen (n div 2))"
  by pat_completeness auto
termination
  by (relation "measure nat") auto

declare bitlen.simps [simp del]

text \<open>
  \<open>ilog2 a\<close> is the integer \<open>e\<close> with \<open>2^e \<le> a < 2^(e+1)\<close>, for \<open>a > 0\<close>: from the
  number of digits of the integer part when \<open>a \<ge> 1\<close>, and of the reciprocal otherwise.
\<close>

definition ilog2 :: "rat \<Rightarrow> int" where
  "ilog2 a = (if 1 \<le> a then bitlen \<lfloor>a\<rfloor> - 1 else - bitlen (\<lceil>1 / a\<rceil> - 1))"

text \<open>Round a non-negative rational to the nearest integer, ties to even.\<close>

definition round_half_even :: "rat \<Rightarrow> int" where
  "round_half_even x =
     (if x - of_int \<lfloor>x\<rfloor> < 1 / 2 then \<lfloor>x\<rfloor>
      else if 1 / 2 < x - of_int \<lfloor>x\<rfloor> then \<lfloor>x\<rfloor> + 1
      else if even \<lfloor>x\<rfloor> then \<lfloor>x\<rfloor> else \<lfloor>x\<rfloor> + 1)"

text \<open>
  \<open>round64 neg a\<close> rounds the magnitude \<open>a > 0\<close> with sign \<open>neg\<close>: 53 significant bits,
  exponents from -1022 (below that the spacing stays \<open>2^-1074\<close>: subnormals, then zero)
  up to 1023 (above that: infinity). \<open>round64_at\<close> rounds to a multiple of the spacing
  \<open>2^(e-52)\<close> of the binade \<open>e\<close>, and \<open>round64_pack\<close> sorts the rounded magnitude into
  infinity, zero and the finite values.
\<close>

definition round64_pack :: "bool \<Rightarrow> rat \<Rightarrow> float64" where
  "round64_pack neg v =
     (if pow2 1024 \<le> v then (if neg then NegInf else PosInf)
      else if v = 0 then (if neg then NegZero else Finite 0)
      else Finite (if neg then - v else v))"

definition round64_at :: "bool \<Rightarrow> rat \<Rightarrow> rat \<Rightarrow> float64" where
  "round64_at neg a u = round64_pack neg (of_int (round_half_even (a / u)) * u)"

definition round64 :: "bool \<Rightarrow> rat \<Rightarrow> float64" where
  "round64 neg a = round64_at neg a (pow2 (max (ilog2 a) (- 1022) - 52))"

text \<open>
  The type \<^typ>\<open>float64\<close> of the model also holds rationals that no binary64 denotes. A
  value of the program is one that rounding leaves as it is.
\<close>

definition is_float64 :: "float64 \<Rightarrow> bool" where
  "is_float64 x = (case x of Finite a \<Rightarrow> a = 0 \<or> round64 (a < 0) \<bar>a\<bar> = Finite a | _ \<Rightarrow> True)"

definition fisNaN :: "float64 \<Rightarrow> bool" where
  "fisNaN x = (x = NaN)"

definition fisInf :: "float64 \<Rightarrow> bool" where
  "fisInf x = (x = PosInf \<or> x = NegInf)"

text \<open>Go's \<^verbatim>\<open>x == 0\<close>: true of both zeros.\<close>

definition feq0 :: "float64 \<Rightarrow> bool" where
  "feq0 x = (x = Finite 0 \<or> x = NegZero)"

definition fneg :: "float64 \<Rightarrow> bool" where
  "fneg x = (case x of Finite q \<Rightarrow> q < 0 | NegZero \<Rightarrow> True | NegInf \<Rightarrow> True | _ \<Rightarrow> False)"

definition fmag :: "float64 \<Rightarrow> rat" where
  "fmag x = (case x of Finite q \<Rightarrow> \<bar>q\<bar> | _ \<Rightarrow> 0)"

text \<open>Go's \<^verbatim>\<open>x / y\<close> on \<^verbatim>\<open>float64\<close>.\<close>

definition fdiv :: "float64 \<Rightarrow> float64 \<Rightarrow> float64" where
  "fdiv x y =
     (if fisNaN x \<or> fisNaN y then NaN
      else let neg = (fneg x \<noteq> fneg y);
               inf = (if neg then NegInf else PosInf);
               zero = (if neg then NegZero else Finite 0)
      in if fisInf x then (if fisInf y then NaN else inf)
         else if fisInf y then zero
         else if feq0 y then (if feq0 x then NaN else inf)
         else if feq0 x then zero
         else round64 neg (fmag x / fmag y))"

text \<open>Go's comparisons \<^verbatim>\<open>x < y\<close> and \<^verbatim>\<open>x <= y\<close>: false when an operand is NaN.\<close>

definition fle :: "float64 \<Rightarrow> float64 \<Rightarrow> bool" where
  "fle x y =
     (if fisNaN x \<or> fisNaN y then False
      else if x = NegInf \<or> y = PosInf then True
      else if x = PosInf \<or> y = NegInf then False
      else (if fneg x then - fmag x else fmag x) \<le> (if fneg y then - fmag y else fmag y))"

definition flt :: "float64 \<Rightarrow> float64 \<Rightarrow> bool" where
  "flt x y = (fle x y \<and> \<not> fle y x)"

text \<open>
  Go's conversion \<^verbatim>\<open>int(x)\<close> to the 64-bit \<^verbatim>\<open>int\<close>: the fraction is discarded (truncation
  towards zero). When the value does not fit, the language leaves the result to the
  implementation; the model takes what the amd64 compiler's conversion instruction
  gives, the smallest \<^verbatim>\<open>int\<close>, also for NaN and the infinities.
\<close>

definition trunc :: "rat \<Rightarrow> int" where
  "trunc q = (if 0 \<le> q then \<lfloor>q\<rfloor> else \<lceil>q\<rceil>)"

definition MinInt64 :: int where
  "MinInt64 = - (2 ^ 63)"

definition float64_to_int :: "float64 \<Rightarrow> int" where
  "float64_to_int x =
     (case x of
        Finite q \<Rightarrow> (let t = trunc q in if MinInt64 \<le> t \<and> t < 2 ^ 63 then t else MinInt64)
      | NegZero \<Rightarrow> 0
      | _ \<Rightarrow> MinInt64)"

section \<open>Events\<close>

type_synonym labels = "(string \<times> string) list"

text \<open>
  A Go \<^verbatim>\<open>map[string]string\<close> is held as an association list with distinct keys;
  \<^verbatim>\<open>labels[k] = v\<close> is \<^term>\<open>AList.update\<close> and \<^verbatim>\<open>len(labels)\<close> is \<^term>\<open>length\<close>.

  In the program all events of a line share the one map of the line. An event of the
  model holds the labels as they are when it is built, and that is what the shared map
  holds in the end: a tag list can only follow \<^verbatim>\<open>|#\<close>, a line with \<^verbatim>\<open>|#\<close> has a single
  sample, and the modifiers of a sample are all read before its events are built.
\<close>

datatype event =
    CounterEvent (CMetricName: string) (CValue: float64) (CLabels: labels)
  | GaugeEvent (GMetricName: string) (GValue: float64) (GRelative: bool) (GLabels: labels)
  | TimerEvent (TMetricName: string) (TValue: float64) (TLabels: labels)

datatype build_error = NoSets | BadStatType string

definition buildEvent :: "string \<Rightarrow> string \<Rightarrow> float64 \<Rightarrow> bool \<Rightarrow> labels \<Rightarrow> build_error + event" where
  "buildEvent statType metric val relative lbls =
     (if statType = ''c'' then Inr (CounterEvent metric val lbls)
      else if statType = ''g'' then Inr (GaugeEvent metric val relative lbls)
      else if statType = ''ms'' \<or> statType = ''h'' \<or> statType = ''d''
        then Inr (TimerEvent metric val lbls)
      else if statType = ''s'' then Inl NoSets
      else Inl (BadStatType statType))"

section \<open>Telemetry and the parser's environment\<close>

datatype reason =
    malformed_line | malformed_component | malformed_value
  | invalid_sample_factor | mixed_tagging_styles | illegal_event

text \<open>The counters \<^verbatim>\<open>LineToEvents\<close> is handed; \<open>sampleErrors\<close> is the vector, by reason.\<close>

record counters =
  sampleErrors :: "reason \<Rightarrow> nat"
  samplesReceived :: nat
  tagErrors :: nat
  tagsReceived :: nat

datatype num_error = ErrSyntax | ErrRange

text \<open>
  What the parser calls outside this repository's sources: \<^verbatim>\<open>strconv.ParseFloat(s, 64)\<close>,
  which returns a value together with an error (\<open>None\<close> is \<^verbatim>\<open>nil\<close>), and the mapper's
  \<^verbatim>\<open>EscapeMetricName\<close>. Both are parameters of the model.
\<close>

record go_env =
  ParseFloat :: "string \<Rightarrow> float64 \<times> num_error option"
  EscapeMetricName :: "string \<Rightarrow> string"

text \<open>The state of one call of \<^verbatim>\<open>LineToEvents\<close>: the label map, the events so far, the counters.\<close>

record lstate =
  labels :: labels
  events :: "event list"
  ctr :: counters

definition sampleErrors_Inc :: "reason \<Rightarrow> counters \<Rightarrow> counters" where
  "sampleErrors_Inc r c = c\<lparr>sampleErrors := (sampleErrors c)(r := sampleErrors c r + 1)\<rparr>"

definition inc_sampleErrors :: "reason \<Rightarrow> lstate \<Rightarrow> lstate" where
  "inc_sampleErrors r st = st\<lparr>ctr := sampleErrors_Inc r (ctr st)\<rparr>"

definition inc_samplesReceived :: "lstate \<Rightarrow> lstate" where
  "inc_samplesReceived st = st\<lparr>ctr := (ctr st)\<lparr>samplesReceived := samplesReceived (ctr st) + 1\<rparr>\<rparr>"

definition inc_tagErrors :: "lstate \<Rightarrow> lstate" where
  "inc_tagErrors st = st\<lparr>ctr := (ctr st)\<lparr>tagErrors := tagErrors (ctr st) + 1\<rparr>\<rparr>"

definition inc_tagsReceived :: "lstate \<Rightarrow> lstate" where
  "inc_tagsReceived st = st\<lparr>ctr := (ctr st)\<lparr>tagsReceived := tagsReceived (ctr st) + 1\<rparr>\<rparr>"

section \<open>Tags\<close>

definition parseTag :: "go_env \<Rightarrow> string \<Rightarrow> char \<Rightarrow> lstate \<Rightarrow> lstate" where
  "parseTag env tag separator st =
     (if length tag = 0 then inc_tagErrors st
      else if separator \<in> set tag then
        (let k = takeWhile (\<lambda>c. c \<noteq> separator) tag;
             v = drop (length k + 1) tag
         in if length k = 0 \<or> length v = 0 then inc_tagErrors st
            else st\<lparr>labels := AList.update (EscapeMetricName env k) v (labels st)\<rparr>)
      else inc_tagErrors st)"

text \<open>
  The loop of \<^verbatim>\<open>parseNameTags\<close>: \<open>cur\<close> is \<^verbatim>\<open>component[lastTagEndIndex:i]\<close>, the bytes since
  the last comma. At the end, \<^verbatim>\<open>lastTagEndIndex < len(component)\<close> says \<open>cur\<close> is not empty.
\<close>

fun parseNameTags_loop :: "go_env \<Rightarrow> string \<Rightarrow> string \<Rightarrow> lstate \<Rightarrow> lstate" where
  "parseNameTags_loop env [] cur st =
     (if cur \<noteq> [] then parseTag env cur CHR ''='' st else st)"
| "parseNameTags_loop env (c # cs) cur st =
     (if c = CHR '','' then parseNameTags_loop env cs [] (parseTag env cur CHR ''='' st)
      else parseNameTags_loop env cs (cur @ [c]) st)"

definition parseNameTags :: "go_env \<Rightarrow> string \<Rightarrow> lstate \<Rightarrow> lstate" where
  "parseNameTags env component st = parseNameTags_loop env component [] st"

definition trimLeftHash :: "string \<Rightarrow> string" where
  "trimLeftHash s = (if s \<noteq> [] \<and> hd s = CHR ''#'' then tl s else s)"

fun ParseDogStatsDTags_loop :: "go_env \<Rightarrow> string \<Rightarrow> string \<Rightarrow> lstate \<Rightarrow> lstate" where
  "ParseDogStatsDTags_loop env [] cur st =
     (if cur \<noteq> [] then parseTag env (trimLeftHash cur) CHR '':'' st else st)"
| "ParseDogStatsDTags_loop env (c # cs) cur st =
     (if c = CHR '',''
      then ParseDogStatsDTags_loop env cs [] (parseTag env (trimLeftHash cur) CHR '':'' st)
      else ParseDogStatsDTags_loop env cs (cur @ [c]) st)"

definition ParseDogStatsDTags :: "go_env \<Rightarrow> string \<Rightarrow> lstate \<Rightarrow> lstate" where
  "ParseDogStatsDTags env component st = ParseDogStatsDTags_loop env component [] st"

text \<open>\<^verbatim>\<open>parseNameAndTags\<close> returns the metric name; the tags go into the state.\<close>

definition parseNameAndTags :: "go_env \<Rightarrow> string \<Rightarrow> lstate \<Rightarrow> string \<times> lstate" where
  "parseNameAndTags env name st =
     (let isDelim = (\<lambda>c. c = CHR ''#'' \<or> c = CHR '','') in
      if \<exists>c \<in> set name. isDelim c then
        (let pre = takeWhile (\<lambda>c. \<not> isDelim c) name
         in (pre, parseNameTags env (drop (length pre + 1) name) st))
      else (name, st))"

section \<open>\<^verbatim>\<open>LineToEvents\<close>\<close>

text \<open>The variables of the loop over the samples that the modifiers change.\<close>

record sample_vars =
  samplingFactor :: float64
  sample_value :: float64
  multiplyEvents :: int

definition isTimer :: "string \<Rightarrow> bool" where
  "isTimer statType = (statType = ''ms'' \<or> statType = ''h'' \<or> statType = ''d'')"

text \<open>
  One round of the loop over \<^verbatim>\<open>components[2:]\<close>. The components are not empty here (the
  loop before it leaves the sample at an empty one), so \<^verbatim>\<open>component[0]\<close> exists.
\<close>

definition modifier_step :: "go_env \<Rightarrow> string \<Rightarrow> sample_vars \<times> lstate \<Rightarrow> string \<Rightarrow> sample_vars \<times> lstate" where
  "modifier_step env statType vst component =
     (case component of
        [] \<Rightarrow> vst
      | c0 # payload \<Rightarrow>
          (let vs = fst vst; st = snd vst in
           if c0 = CHR ''@'' then
             (let (sf, err) = ParseFloat env payload;
                  st1 = (if err \<noteq> None then inc_sampleErrors invalid_sample_factor st else st);
                  sf1 = (if feq0 sf then Finite 1 else sf);
                  vs1 = vs\<lparr>samplingFactor := sf1\<rparr>
              in if statType = ''g'' then (vs1, st1)
                 else if statType = ''c''
                   then (vs1\<lparr>sample_value := fdiv (sample_value vs1) sf1\<rparr>, st1)
                 else if statType = ''ms'' \<or> statType = ''h'' \<or> statType = ''d''
                   then (vs1\<lparr>multiplyEvents := float64_to_int (fdiv (Finite 1) sf1)\<rparr>, st1)
                 else (vs1, st1))
           else if c0 = CHR ''#'' then (vs, ParseDogStatsDTags env payload st)
           else (vs, inc_sampleErrors invalid_sample_factor st)))"

text \<open>The loop \<^verbatim>\<open>for i := 0; i < multiplyEvents; i++\<close>, by the number of rounds left.\<close>

fun build_loop :: "string \<Rightarrow> string \<Rightarrow> float64 \<Rightarrow> bool \<Rightarrow> nat \<Rightarrow> lstate \<Rightarrow> lstate" where
  "build_loop statType metric val relative 0 st = st"
| "build_loop statType metric val relative (Suc n) st =
     build_loop statType metric val relative n
       (case buildEvent statType metric val relative (labels st) of
          Inl err \<Rightarrow> inc_sampleErrors illegal_event st
        | Inr ev \<Rightarrow> st\<lparr>events := events st @ [ev]\<rparr>)"

text \<open>The body of the loop over the samples; a \<^verbatim>\<open>continue\<close> is a branch that returns.\<close>

definition sample_step :: "go_env \<Rightarrow> string \<Rightarrow> lstate \<Rightarrow> string \<Rightarrow> lstate" where
  "sample_step env metric st0 sample =
     (let st = inc_samplesReceived st0;
          components = Split sample CHR ''|''
      in if length components < 2 \<or> 4 < length components
         then inc_sampleErrors malformed_component st
         else
          (let valueStr = components ! 0;
               statType = components ! 1;
               relative = (Index valueStr CHR ''+'' = 0 \<or> Index valueStr CHR ''-'' = 0);
               (val, err) = ParseFloat env valueStr
           in if err \<noteq> None then inc_sampleErrors malformed_value st
              else if 3 \<le> length components \<and> (\<exists>c \<in> set (drop 2 components). length c = 0)
                then inc_sampleErrors malformed_component st
              else
               (let vs0 = \<lparr>samplingFactor = Finite 1, sample_value = val, multiplyEvents = 1\<rparr>;
                    (vs, st1) = foldl (modifier_step env statType) (vs0, st) (drop 2 components);
                    st2 = (if 0 < length (labels st1) then inc_tagsReceived st1 else st1)
                in build_loop statType metric (sample_value vs) relative
                     (nat (multiplyEvents vs)) st2)))"

definition LineToEvents :: "go_env \<Rightarrow> string \<Rightarrow> counters \<Rightarrow> event list \<times> counters" where
  "LineToEvents env line c =
     (if line = [] then ([], c)
      else
       (let elements = SplitN2 line CHR '':'' in
        if length elements < 2 \<or> length (elements ! 0) = 0 \<or> \<not> ValidString line
        then ([], sampleErrors_Inc malformed_line c)
        else
         (let (metric, st) = parseNameAndTags env (elements ! 0)
                               \<lparr>labels = [], events = [], ctr = c\<rparr>
          in if Contains (elements ! 1) ''|#'' then
               (if 0 < length (labels st)
                then ([], sampleErrors_Inc mixed_tagging_styles (ctr st))
                else (let st' = foldl (sample_step env metric) st (drop 1 elements)
                      in (events st', ctr st')))
             else (let st' = foldl (sample_step env metric) st (Split (elements ! 1) CHR '':'')
                   in (events st', ctr st')))))"

section \<open>Listeners\<close>

text \<open>
  What a listener touches: its own counters, the parser's counters, and the event handler.
  \<^verbatim>\<open>EventHandler\<close> is an interface; the model records the argument of every call of its
  \<^verbatim>\<open>Queue\<close> method, in order.
\<close>

record listener_state =
  udpPackets :: nat
  unixgramPackets :: nat
  linesReceived :: nat
  tcpConnections :: nat
  tcpErrors :: nat
  tcpLineTooLong :: nat
  parse :: counters
  queued :: "event list list"

text \<open>The two statements every listener runs for a line: count it, parse it and queue the events.\<close>

definition handle_line :: "go_env \<Rightarrow> listener_state \<Rightarrow> string \<Rightarrow> listener_state" where
  "handle_line env st line =
     (let st1 = st\<lparr>linesReceived := linesReceived st + 1\<rparr>;
          (evs, c) = LineToEvents env line (parse st1)
      in st1\<lparr>parse := c, queued := queued st1 @ [evs]\<rparr>)"

definition StatsDUDPListener_HandlePacket :: "go_env \<Rightarrow> string \<Rightarrow> listener_state \<Rightarrow> listener_state" where
  "StatsDUDPListener_HandlePacket env packet st =
     (let st1 = st\<lparr>udpPackets := udpPackets st + 1\<rparr>;
          lines = Split packet (CHR 0x0A)
      in foldl (handle_line env) st1 lines)"

definition StatsDUnixgramListener_HandlePacket :: "go_env \<Rightarrow> string \<Rightarrow> listener_state \<Rightarrow> listener_state" where
  "StatsDUnixgramListener_HandlePacket env packet st =
     (let st1 = st\<lparr>unixgramPackets := unixgramPackets st + 1\<rparr>;
          lines = Split packet (CHR 0x0A)
      in foldl (handle_line env) st1 lines)"

text \<open>
  The TCP handler reads with \<^verbatim>\<open>bufio.Reader.ReadLine\<close>, which returns a line, the flag
  \<^verbatim>\<open>isPrefix\<close> (the line did not fit the buffer) and an error. A connection is the list of
  what its successive reads return. The handler returns when a read tells it to; when the
  reads run out before that it is still waiting, and the result is \<open>None\<close>.
\<close>

datatype read_error = EOF | ReadFailed

record read_result =
  rline :: string
  isPrefix :: bool
  rerr :: "read_error option"

fun HandleConn_loop :: "go_env \<Rightarrow> read_result list \<Rightarrow> listener_state \<Rightarrow> listener_state option" where
  "HandleConn_loop env [] st = None"
| "HandleConn_loop env (r # rs) st =
     (if rerr r \<noteq> None then
        (if rerr r \<noteq> Some EOF then Some (st\<lparr>tcpErrors := tcpErrors st + 1\<rparr>) else Some st)
      else if isPrefix r then Some (st\<lparr>tcpLineTooLong := tcpLineTooLong st + 1\<rparr>)
      else HandleConn_loop env rs (handle_line env st (rline r)))"

definition StatsDTCPListener_HandleConn :: "go_env \<Rightarrow> read_result list \<Rightarrow> listener_state \<Rightarrow> listener_state option" where
  "StatsDTCPListener_HandleConn env conn st =
     HandleConn_loop env conn (st\<lparr>tcpConnections := tcpConnections st + 1\<rparr>)"

section \<open>The event queue\<close>

text \<open>
  The queue: the buffer \<open>q\<close>, the batches sent on the channel \<open>C\<close> so far (oldest first),
  the threshold and the counter of flushes.
\<close>

record event_queue =
  q :: "event list"
  C :: "event list list"
  flushThreshold :: nat
  eventsFlushed :: nat

text \<open>
  Modelled from the spec: the package \<^verbatim>\<open>event\<close> (\<^verbatim>\<open>NewEventQueue\<close>, \<^verbatim>\<open>Queue\<close>) is not among the
  sources, only its test is. The spec: "\<^verbatim>\<open>Queue(events)\<close> - append events; while the internal
  buffer length is \<ge> N, cut off the leading N events and send them as one batch on out,
  incrementing the flushed counter once per batch." The loop need not end (N = 0), so it
  is a partial function: \<open>None\<close> is a call that does not return.
\<close>

definition NewEventQueue :: "nat \<Rightarrow> event_queue" where
  "NewEventQueue n = \<lparr>q = [], C = [], flushThreshold = n, eventsFlushed = 0\<rparr>"

partial_function (option) flush_full :: "event_queue \<Rightarrow> event_queue option" where
  "flush_full eq =
     (if flushThreshold eq \<le> length (q eq)
      then flush_full (eq\<lparr>q := drop (flushThreshold eq) (q eq),
                          C := C eq @ [take (flushThreshold eq) (q eq)],
                          eventsFlushed := eventsFlushed eq + 1\<rparr>)
      else Some eq)"

definition Queue :: "event_queue \<Rightarrow> event list \<Rightarrow> event_queue option" where
  "Queue eq evs = flush_full (eq\<lparr>q := q eq @ evs\<rparr>)"

text \<open>Several calls of \<^verbatim>\<open>Queue\<close>, one after the other.\<close>

fun Queue_calls :: "event_queue \<Rightarrow> event list list \<Rightarrow> event_queue option" where
  "Queue_calls eq [] = Some eq"
| "Queue_calls eq (evs # rest) =
     (case Queue eq evs of None \<Rightarrow> None | Some eq' \<Rightarrow> Queue_calls eq' rest)"

section \<open>A concrete environment\<close>

text \<open>
  To run the parser on concrete lines, the decimal fragment of \<^verbatim>\<open>strconv.ParseFloat\<close>: an
  optional sign, digits with an optional point, an optional exponent. The value is the
  correctly rounded one; a magnitude that rounds to infinity is returned with
  \<^verbatim>\<open>ErrRange\<close>, and one that rounds to zero is returned without error. The other
  syntaxes the library accepts (hexadecimal, underscores, \<^verbatim>\<open>inf\<close>, \<^verbatim>\<open>nan\<close>) are outside
  this fragment and are given as syntax errors, which return 0.
\<close>

definition is_digit :: "char \<Rightarrow> bool" where
  "is_digit c = (48 \<le> (of_char c :: nat) \<and> (of_char c :: nat) \<le> 57)"

text \<open>A run of digits: its value on top of \<open>acc\<close>, its length on top of \<open>n\<close>, and what follows it.\<close>

fun scan_digits :: "string \<Rightarrow> int \<Rightarrow> nat \<Rightarrow> int \<times> nat \<times> string" where
  "scan_digits [] acc n = (acc, n, [])"
| "scan_digits (c # cs) acc n =
     (if is_digit c then scan_digits cs (10 * acc + (of_char c - 48)) (Suc n)
      else (acc, n, c # cs))"

text \<open>An optional sign: whether it is a minus, and what follows it.\<close>

fun scan_sign :: "string \<Rightarrow> bool \<times> string" where
  "scan_sign [] = (False, [])"
| "scan_sign (c # cs) =
     (if c = CHR ''-'' then (True, cs) else if c = CHR ''+'' then (False, cs) else (False, c # cs))"

text \<open>
  The scanner returns the sign, the digits of the mantissa read as one integer, and the
  decimal exponent that goes with it; \<open>None\<close> is a syntax error. Each stage hands what it
  has read to the next one.
\<close>

definition scan_exp_digits :: "bool \<Rightarrow> int \<Rightarrow> int \<Rightarrow> bool \<Rightarrow> int \<times> nat \<times> string \<Rightarrow> (bool \<times> int \<times> int) option" where
  "scan_exp_digits neg m ex eneg r =
     (case r of (ev, en, rest) \<Rightarrow>
        if en = 0 \<or> rest \<noteq> [] then None
        else Some (neg, m, ex + (if eneg then - ev else ev)))"

definition scan_exp_sign :: "bool \<Rightarrow> int \<Rightarrow> int \<Rightarrow> bool \<times> string \<Rightarrow> (bool \<times> int \<times> int) option" where
  "scan_exp_sign neg m ex r =
     (case r of (eneg, rest) \<Rightarrow> scan_exp_digits neg m ex eneg (scan_digits rest 0 0))"

definition scan_exp :: "bool \<Rightarrow> nat \<Rightarrow> int \<times> nat \<times> string \<Rightarrow> (bool \<times> int \<times> int) option" where
  "scan_exp neg n1 r =
     (case r of (m, n2, rest) \<Rightarrow>
        if n1 + n2 = 0 then None
        else (case rest of
                [] \<Rightarrow> Some (neg, m, - int n2)
              | c # cs \<Rightarrow>
                  if c = CHR ''e'' \<or> c = CHR ''E''
                  then scan_exp_sign neg m (- int n2) (scan_sign cs)
                  else None))"

definition scan_fraction :: "bool \<Rightarrow> int \<times> nat \<times> string \<Rightarrow> (bool \<times> int \<times> int) option" where
  "scan_fraction neg r =
     (case r of (m, n1, rest) \<Rightarrow>
        (case rest of
           [] \<Rightarrow> scan_exp neg n1 (m, 0, [])
         | c # cs \<Rightarrow>
             if c = CHR ''.'' then scan_exp neg n1 (scan_digits cs m 0)
             else scan_exp neg n1 (m, 0, c # cs)))"

definition scan_decimal :: "string \<Rightarrow> (bool \<times> int \<times> int) option" where
  "scan_decimal s =
     (case scan_sign s of (neg, rest) \<Rightarrow> scan_fraction neg (scan_digits rest 0 0))"

definition pow10 :: "int \<Rightarrow> rat" where
  "pow10 k = (if 0 \<le> k then 10 ^ nat k else 1 / 10 ^ nat (- k))"

definition range_checked :: "float64 \<Rightarrow> float64 \<times> num_error option" where
  "range_checked x = (if fisInf x then (x, Some ErrRange) else (x, None))"

definition ParseFloat_dec :: "string \<Rightarrow> float64 \<times> num_error option" where
  "ParseFloat_dec s =
     (case scan_decimal s of
        None \<Rightarrow> (Finite 0, Some ErrSyntax)
      | Some (neg, m, ex) \<Rightarrow>
          if m = 0 then (if neg then NegZero else Finite 0, None)
          else range_checked (round64 neg (of_int m * pow10 ex)))"

text \<open>
  Modelled from the spec: the mapper's \<^verbatim>\<open>EscapeMetricName\<close> is not among the sources. The
  spec: "any character not in \<^verbatim>\<open>[A-Za-z_][A-Za-z0-9_]*\<close> is replaced with \<^verbatim>\<open>_\<close>, and a leading
  digit is prefixed with \<^verbatim>\<open>_\<close>". A character of several bytes is one character: its first
  byte becomes the underscore and its continuation bytes go.
\<close>

definition is_name_char :: "char \<Rightarrow> bool" where
  "is_name_char c =
     (let n = (of_char c :: nat)
      in (97 \<le> n \<and> n \<le> 122) \<or> (65 \<le> n \<and> n \<le> 90) \<or> (48 \<le> n \<and> n \<le> 57) \<or> n = 95)"

definition EscapeMetricName_spec :: "string \<Rightarrow> string" where
  "EscapeMetricName_spec name =
     (let body = map (\<lambda>c. if is_name_char c then c else CHR ''_'')
                   (filter (\<lambda>c. \<not> utf8_cont (of_char c)) name)
      in if name \<noteq> [] \<and> is_digit (hd name) then CHR ''_'' # body else body)"

definition env0 :: go_env where
  "env0 = \<lparr>ParseFloat = ParseFloat_dec, EscapeMetricName = EscapeMetricName_spec\<rparr>"

definition counters0 :: counters where
  "counters0 = \<lparr>sampleErrors = (\<lambda>r. 0), samplesReceived = 0, tagErrors = 0, tagsReceived = 0\<rparr>"

definition listener_state0 :: listener_state where
  "listener_state0 =
     \<lparr>udpPackets = 0, unixgramPackets = 0, linesReceived = 0, tcpConnections = 0,
      tcpErrors = 0, tcpLineTooLong = 0, parse = counters0, queued = []\<rparr>"

text \<open>A connection and a sequence of calls of \<^verbatim>\<open>Queue\<close> at which the theorems are run.\<close>

definition conn0 :: "read_result list" where
  "conn0 = [\<lparr>rline = ''foo:1|c'', isPrefix = False, rerr = None\<rparr>]"

definition queue_calls0 :: "event list list" where
  "queue_calls0 =
     [map (\<lambda>i. TimerEvent ''t'' (Finite (of_nat i)) []) [0..<7],
      map (\<lambda>i. TimerEvent ''t'' (Finite (of_nat i)) []) [7..<13]]"

section \<open>Notions used to state the properties\<close>

text \<open>The \<open>i\<close>-th run of \<open>n\<close> consecutive elements of a list, used to state what the queue sends.\<close>

definition batch :: "nat \<Rightarrow> 'a list \<Rightarrow> nat \<Rightarrow> 'a list" where
  "batch n xs i = take n (drop (i * n) xs)"

text \<open>The queue with threshold \<open>n\<close> after the events \<open>xs\<close> have gone in, as C4 describes it.\<close>

definition queue_after :: "nat \<Rightarrow> event list \<Rightarrow> event_queue" where
  "queue_after n xs =
     \<lparr>q = drop (length xs div n * n) xs,
      C = map (batch n xs) [0..<length xs div n],
      flushThreshold = n,
      eventsFlushed = length xs div n\<rparr>"

text \<open>
  What \<^verbatim>\<open>LineToEvents\<close> has when it enters its loop over the samples: the metric name, the
  state after the name part, and the list of samples; \<open>None\<close> for a line that it leaves
  before the loop. (Lemma \<open>LineToEvents_samples\<close> below proves that this is what the
  function does.)
\<close>

definition samples_of_line :: "go_env \<Rightarrow> string \<Rightarrow> counters \<Rightarrow> (string \<times> lstate \<times> string list) option" where
  "samples_of_line env line c =
     (if line = [] then None
      else
       (let elements = SplitN2 line CHR '':'' in
        if length elements < 2 \<or> length (elements ! 0) = 0 \<or> \<not> ValidString line then None
        else
         (let (metric, st) = parseNameAndTags env (elements ! 0)
                               \<lparr>labels = [], events = [], ctr = c\<rparr>
          in if Contains (elements ! 1) ''|#'' then
               (if 0 < length (labels st) then None else Some (metric, st, drop 1 elements))
             else Some (metric, st, Split (elements ! 1) CHR '':''))))"

text \<open>Whether the value literal of a sample starts with a sign, as \<^verbatim>\<open>LineToEvents\<close> tests it.\<close>

definition is_relative :: "string \<Rightarrow> bool" where
  "is_relative valueStr = (Index valueStr CHR ''+'' = 0 \<or> Index valueStr CHR ''-'' = 0)"

section \<open>Evaluating the concrete environment\<close>

text \<open>The equations by which the simplifier runs the scanner and the rounding on literals.\<close>

lemmas scan_defs =
  scan_decimal_def scan_fraction_def scan_exp_def scan_exp_sign_def scan_exp_digits_def
  is_digit_def

lemmas round_defs =
  round64_def round64_at_def round64_pack_def ilog2_def pow2_def round_half_even_def
  bitlen.simps

lemma ParseFloat_env0 [simp]: "ParseFloat env0 = ParseFloat_dec"
  by (simp add: env0_def)

section \<open>Facts about the rounding\<close>

lemma pow2_powi: "pow2 k = 2 powi k"
  by (simp add: pow2_def power_int_def field_simps)

lemma pow2_pos [simp]: "0 < pow2 k"
  by (simp add: pow2_def)

lemma pow2_add: "pow2 (j + k) = pow2 j * pow2 k"
  by (simp add: pow2_powi power_int_add)

lemma pow2_mono: "j \<le> k \<Longrightarrow> pow2 j \<le> pow2 k"
  by (simp add: pow2_powi power_int_increasing)

lemma pow2_nat: "0 \<le> k \<Longrightarrow> pow2 k = of_int (2 ^ nat k)"
  by (simp add: pow2_def)

lemma round_half_even_cases:
  "round_half_even x = \<lfloor>x\<rfloor> \<or> round_half_even x = \<lfloor>x\<rfloor> + 1"
  by (simp add: round_half_even_def)

lemma round_half_even_ge:
  assumes "of_int m \<le> x"
  shows "m \<le> round_half_even x"
proof -
  from assms have "m \<le> \<lfloor>x\<rfloor>" by (simp add: le_floor_iff)
  with round_half_even_cases [of x] show ?thesis by auto
qed

lemma round_half_even_le: "of_int (round_half_even x) \<le> x + 1 / 2"
proof -
  have f: "of_int \<lfloor>x\<rfloor> \<le> x" by simp
  show ?thesis
  proof (cases "x - of_int \<lfloor>x\<rfloor> < 1 / 2")
    case True
    then have "round_half_even x = \<lfloor>x\<rfloor>" by (simp add: round_half_even_def)
    with f show ?thesis by linarith
  next
    case False
    then have "of_int \<lfloor>x\<rfloor> + 1 \<le> x + 1 / 2" by linarith
    moreover have "of_int (round_half_even x) \<le> (of_int \<lfloor>x\<rfloor> + 1 :: rat)"
      using round_half_even_cases [of x] by auto
    ultimately show ?thesis by linarith
  qed
qed

lemma bitlen_le: "n < 2 ^ k \<Longrightarrow> bitlen n \<le> int k"
proof (induction k arbitrary: n)
  case 0
  then show ?case by (simp add: bitlen.simps)
next
  case (Suc k)
  show ?case
  proof (cases "n \<le> 0")
    case True
    then show ?thesis by (simp add: bitlen.simps)
  next
    case False
    from Suc.prems have "n div 2 < 2 ^ k" by simp
    from Suc.IH [OF this] False show ?thesis
      by (subst bitlen.simps) simp
  qed
qed

lemma bitlen_ge1: "1 \<le> n \<Longrightarrow> 1 \<le> bitlen n"
proof -
  assume "1 \<le> n"
  moreover have "0 \<le> bitlen m" for m
    by (induction m rule: bitlen.induct) (subst bitlen.simps, simp)
  ultimately show ?thesis
    by (subst bitlen.simps) (simp add: add_increasing2)
qed

lemma ilog2_le:
  assumes "1 \<le> a" and "a < 2 ^ k"
  shows "ilog2 a \<le> int k - 1"
proof -
  have "\<lfloor>a\<rfloor> < 2 ^ k"
    using assms(2) by (simp add: floor_less_iff)
  from bitlen_le [OF this] assms(1) show ?thesis
    by (simp add: ilog2_def)
qed

text \<open>A magnitude of at least \<open>2^1024\<close> rounds to infinity.\<close>

lemma round64_overflow:
  assumes "pow2 1024 \<le> a" and "ilog2 a \<le> 1076"
  shows "round64 neg a = (if neg then NegInf else PosInf)"
proof -
  define e where "e = max (ilog2 a) (- 1022)"
  define u where "u = pow2 (e - 52)"
  have e: "e \<le> 1076" using assms(2) by (simp add: e_def)
  have u: "0 < u" by (simp add: u_def)
  have split: "pow2 1024 = of_int (2 ^ nat (1076 - e)) * u"
  proof -
    have "pow2 1024 = pow2 ((1076 - e) + (e - 52))" by simp
    also have "\<dots> = pow2 (1076 - e) * u" unfolding u_def by (rule pow2_add)
    also have "pow2 (1076 - e) = of_int (2 ^ nat (1076 - e))" using e by (simp add: pow2_nat)
    finally show ?thesis .
  qed
  have "of_int (2 ^ nat (1076 - e)) \<le> a / u"
    using assms(1) u unfolding split by (simp add: pos_le_divide_eq)
  then have "2 ^ nat (1076 - e) \<le> round_half_even (a / u)"
    by (rule round_half_even_ge)
  then have "(of_int (2 ^ nat (1076 - e)) :: rat) \<le> of_int (round_half_even (a / u))"
    by (simp only: of_int_le_iff)
  then have "pow2 1024 \<le> of_int (round_half_even (a / u)) * u"
    unfolding split using u by (simp add: mult_right_mono)
  then show ?thesis
    by (simp add: round64_def round64_at_def round64_pack_def e_def [symmetric] u_def [symmetric])
qed

section \<open>Evaluating the concrete environment on literals\<close>

lemma scan_decimal_examples:
  "scan_decimal ''1'' = Some (False, 1, 0)"
  "scan_decimal ''2'' = Some (False, 2, 0)"
  "scan_decimal ''3'' = Some (False, 3, 0)"
  "scan_decimal ''0'' = Some (False, 0, 0)"
  "scan_decimal ''0.5'' = Some (False, 5, - 1)"
  "scan_decimal ''0.25'' = Some (False, 25, - 2)"
  "scan_decimal ''bar'' = None"
  "scan_decimal ''1e309'' = Some (False, 1, 309)"
  "scan_decimal ''5.42101086242752217003726400434970855712890625e-20''
     = Some (False, 542101086242752217003726400434970855712890625, - 64)"
  by (simp_all add: scan_defs)

lemma round64_examples:
  "round64 False 1 = Finite 1"
  "round64 False 2 = Finite 2"
  "round64 False 3 = Finite 3"
  "round64 False 4 = Finite 4"
  "round64 False (1 / 2) = Finite (1 / 2)"
  "round64 False (1 / 4) = Finite (1 / 4)"
  "round64 False 18446744073709551616 = Finite 18446744073709551616"
  "round64 False (1 / 18446744073709551616) = Finite (1 / 18446744073709551616)"
  by (simp_all add: round_defs)

lemma round64_1e309: "round64 False (10 ^ 309) = PosInf"
proof -
  have "ilog2 (10 ^ 309) \<le> int 1077 - 1"
    by (rule ilog2_le) simp_all
  then have e: "ilog2 (10 ^ 309) \<le> 1076"
    by simp
  have a: "pow2 1024 \<le> 10 ^ 309"
    by (simp add: pow2_def)
  show ?thesis
    using round64_overflow [OF a e, of False] by (simp only: if_False)
qed

lemma ParseFloat_dec_examples:
  "ParseFloat_dec ''1'' = (Finite 1, None)"
  "ParseFloat_dec ''2'' = (Finite 2, None)"
  "ParseFloat_dec ''3'' = (Finite 3, None)"
  "ParseFloat_dec ''0'' = (Finite 0, None)"
  "ParseFloat_dec ''0.5'' = (Finite (1 / 2), None)"
  "ParseFloat_dec ''0.25'' = (Finite (1 / 4), None)"
  "ParseFloat_dec ''bar'' = (Finite 0, Some ErrSyntax)"
  by (simp_all add: ParseFloat_dec_def scan_decimal_examples pow10_def round64_examples
      range_checked_def fisInf_def)

lemma ParseFloat_dec_tiny:
  "ParseFloat_dec ''5.42101086242752217003726400434970855712890625e-20''
     = (Finite (1 / 18446744073709551616), None)"
  by (simp add: ParseFloat_dec_def scan_decimal_examples pow10_def round64_examples
      range_checked_def fisInf_def)

lemma ParseFloat_dec_1e309: "ParseFloat_dec ''1e309'' = (PosInf, Some ErrRange)"
proof -
  have "ParseFloat_dec ''1e309'' = range_checked (round64 False (pow10 309))"
    by (simp add: ParseFloat_dec_def scan_decimal_examples)
  also have "pow10 309 = 10 ^ 309"
    by (simp only: pow10_def nat_numeral zero_le_numeral if_True)
  also have "range_checked (round64 False (10 ^ 309)) = (PosInf, Some ErrRange)"
    by (simp only: round64_1e309 range_checked_def fisInf_def simp_thms if_True)
  finally show ?thesis .
qed

lemma fdiv_examples:
  "fdiv (Finite 1) (Finite (1 / 2)) = Finite 2"
  "fdiv (Finite 2) (Finite (1 / 2)) = Finite 4"
  "fdiv (Finite 1) (Finite (1 / 4)) = Finite 4"
  "fdiv (Finite 1) (Finite 1) = Finite 1"
  "fdiv (Finite 1) (Finite 2) = Finite (1 / 2)"
  "fdiv (Finite 1) PosInf = Finite 0"
  "fdiv (Finite 1) (Finite (1 / 18446744073709551616)) = Finite 18446744073709551616"
  by (simp_all add: fdiv_def fisNaN_def fisInf_def feq0_def fneg_def fmag_def round64_examples)

section \<open>Malformed lines\<close>

lemma ValidString_Nil: "ValidString []"
  by (simp add: ValidString_def)

text \<open>
  C1. A line that is not valid UTF-8 gives no events, and the only counter that moves is
  \<open>sample_errors{reason="malformed_line"}\<close>, by exactly one, whatever else the line holds.
\<close>

theorem LineToEvents_invalid_utf8:
  assumes "\<not> ValidString line"
  shows "LineToEvents env line c =
           ([], c\<lparr>sampleErrors := (sampleErrors c)(malformed_line := sampleErrors c malformed_line + 1)\<rparr>)"
proof -
  from assms have "line \<noteq> []"
    using ValidString_Nil by auto
  with assms show ?thesis
    by (simp add: LineToEvents_def Let_def sampleErrors_Inc_def)
qed

lemma not_ValidString_example:
  "\<not> ValidString (''invalid'' @ [CHR 0xC3, CHR 0x28] @ ''utf8:1|c'')"
  by code_simp

theorem LineToEvents_invalid_utf8_witness:
  "\<not> ValidString (''invalid'' @ [CHR 0xC3, CHR 0x28] @ ''utf8:1|c'') \<and>
   LineToEvents env0 (''invalid'' @ [CHR 0xC3, CHR 0x28] @ ''utf8:1|c'') counters0 =
     ([], counters0\<lparr>sampleErrors := (sampleErrors counters0)(malformed_line := sampleErrors counters0 malformed_line + 1)\<rparr>)"
  using LineToEvents_invalid_utf8 [OF not_ValidString_example, of env0 counters0]
    not_ValidString_example by simp


section \<open>Datagram listeners\<close>

lemma Split_not_Nil: "Split s sep \<noteq> []"
  by (induction s) (auto split: list.splits)

lemma length_Split: "length (Split s sep) = count_list s sep + 1"
  by (induction s) (auto split: list.splits simp: Split_not_Nil)

lemma LineToEvents_Nil: "LineToEvents env [] c = ([], c)"
  by (simp add: LineToEvents_def)

lemma handle_line_fields:
  "linesReceived (handle_line env st line) = linesReceived st + 1"
  "length (queued (handle_line env st line)) = length (queued st) + 1"
  "udpPackets (handle_line env st line) = udpPackets st"
  "unixgramPackets (handle_line env st line) = unixgramPackets st"
  "tcpConnections (handle_line env st line) = tcpConnections st"
  "tcpErrors (handle_line env st line) = tcpErrors st"
  "tcpLineTooLong (handle_line env st line) = tcpLineTooLong st"
  by (simp_all add: handle_line_def Let_def split: prod.splits)

lemma foldl_handle_line_fields:
  "linesReceived (foldl (handle_line env) st ls) = linesReceived st + length ls"
  "length (queued (foldl (handle_line env) st ls)) = length (queued st) + length ls"
  "udpPackets (foldl (handle_line env) st ls) = udpPackets st"
  "unixgramPackets (foldl (handle_line env) st ls) = unixgramPackets st"
  "tcpConnections (foldl (handle_line env) st ls) = tcpConnections st"
  "tcpErrors (foldl (handle_line env) st ls) = tcpErrors st"
  "tcpLineTooLong (foldl (handle_line env) st ls) = tcpLineTooLong st"
  by (induction ls arbitrary: st) (simp_all add: handle_line_fields)

text \<open>
  C10. A datagram counts (number of newline bytes) + 1 lines, in the UDP and in the
  Unixgram listener, and hands as many event lists to the queue; the empty line (of an
  empty packet, or after a final newline) parses to no events and moves no counter.
\<close>

theorem HandlePacket_linesReceived:
  "linesReceived (StatsDUDPListener_HandlePacket env packet st)
     = linesReceived st + (count_list packet (CHR 0x0A) + 1) \<and>
   linesReceived (StatsDUnixgramListener_HandlePacket env packet st)
     = linesReceived st + (count_list packet (CHR 0x0A) + 1) \<and>
   length (queued (StatsDUDPListener_HandlePacket env packet st))
     = length (queued st) + (count_list packet (CHR 0x0A) + 1) \<and>
   length (queued (StatsDUnixgramListener_HandlePacket env packet st))
     = length (queued st) + (count_list packet (CHR 0x0A) + 1) \<and>
   LineToEvents env [] c = ([], c)"
  by (simp add: StatsDUDPListener_HandlePacket_def StatsDUnixgramListener_HandlePacket_def
      Let_def foldl_handle_line_fields length_Split LineToEvents_Nil)

theorem HandlePacket_linesReceived_witness:
  "linesReceived (StatsDUDPListener_HandlePacket env0 [] listener_state0) = 1 \<and>
   linesReceived (StatsDUnixgramListener_HandlePacket env0
     (''foo:1|c'' @ [CHR 0x0A] @ ''bar:2|c'' @ [CHR 0x0A]) listener_state0) = 3"
  using HandlePacket_linesReceived [of env0 "[]" listener_state0]
    HandlePacket_linesReceived [of env0 "''foo:1|c'' @ [CHR 0x0A] @ ''bar:2|c'' @ [CHR 0x0A]"
      listener_state0]
  by (simp add: listener_state0_def)

section \<open>The TCP listener\<close>

lemma HandleConn_loop_lines:
  assumes "\<forall>r \<in> set pre. rerr r = None \<and> \<not> isPrefix r"
  shows "HandleConn_loop env (pre @ rs) st
           = HandleConn_loop env rs (foldl (handle_line env) st (map rline pre))"
  using assms by (induction pre arbitrary: st) simp_all

text \<open>
  C8. After any number of lines read whole, a read that reports a line longer than the
  buffer makes the handler return with \<open>tcp_line_too_long\<close> one higher, and a read that
  fails with an error other than EOF makes it return with \<open>tcp_errors\<close> one higher. In
  both cases what the connection would deliver afterwards (\<open>rest\<close>) is neither
  parsed nor queued: the result is the state after the lines before, with that one counter moved.
\<close>

theorem HandleConn_too_long_or_error:
  assumes "\<forall>r \<in> set pre. rerr r = None \<and> \<not> isPrefix r"
    and "S = foldl (handle_line env) (st\<lparr>tcpConnections := tcpConnections st + 1\<rparr>) (map rline pre)"
  shows "(rerr x = None \<and> isPrefix x \<longrightarrow>
            StatsDTCPListener_HandleConn env (pre @ x # rest) st
              = Some (S\<lparr>tcpLineTooLong := tcpLineTooLong S + 1\<rparr>)
            \<and> tcpLineTooLong S = tcpLineTooLong st \<and> tcpErrors S = tcpErrors st)
       \<and> (\<forall>e. rerr x = Some e \<and> e \<noteq> EOF \<longrightarrow>
            StatsDTCPListener_HandleConn env (pre @ x # rest) st
              = Some (S\<lparr>tcpErrors := tcpErrors S + 1\<rparr>)
            \<and> tcpLineTooLong S = tcpLineTooLong st \<and> tcpErrors S = tcpErrors st)"
  unfolding StatsDTCPListener_HandleConn_def HandleConn_loop_lines [OF assms(1)]
  by (auto simp: assms(2) foldl_handle_line_fields)


theorem HandleConn_too_long_or_error_witness:
  "map_option tcpLineTooLong
     (StatsDTCPListener_HandleConn env0
        (conn0 @ \<lparr>rline = ''bar:2'', isPrefix = True, rerr = None\<rparr>
           # [\<lparr>rline = ''baz:3|c'', isPrefix = False, rerr = None\<rparr>]) listener_state0) = Some 1 \<and>
   map_option tcpErrors
     (StatsDTCPListener_HandleConn env0
        (conn0 @ \<lparr>rline = [], isPrefix = False, rerr = Some ReadFailed\<rparr>
           # [\<lparr>rline = ''baz:3|c'', isPrefix = False, rerr = None\<rparr>]) listener_state0) = Some 1"
proof -
  have h: "\<forall>r \<in> set conn0. rerr r = None \<and> \<not> isPrefix r"
    by (simp add: conn0_def)
  show ?thesis
    using h
      HandleConn_too_long_or_error [OF h refl, where env = env0 and st = listener_state0
        and x = "\<lparr>rline = ''bar:2'', isPrefix = True, rerr = None\<rparr>"
        and rest = "[\<lparr>rline = ''baz:3|c'', isPrefix = False, rerr = None\<rparr>]"]
      HandleConn_too_long_or_error [OF h refl, where env = env0 and st = listener_state0
        and x = "\<lparr>rline = [], isPrefix = False, rerr = Some ReadFailed\<rparr>"
        and rest = "[\<lparr>rline = ''baz:3|c'', isPrefix = False, rerr = None\<rparr>]"]
    by (simp add: listener_state0_def)
qed


section \<open>The event queue flushes at its threshold\<close>


lemma map_upt_Suc_shift: "map f [0..<Suc j] = f 0 # map (\<lambda>i. f (Suc i)) [0..<j]"
  by (simp add: upt_conv_Cons map_Suc_upt [symmetric] del: upt_Suc)

lemma flush_full_batches:
  assumes "0 < flushThreshold eq" and "j = length (q eq) div flushThreshold eq"
  shows "flush_full eq =
           Some (eq\<lparr>q := drop (j * flushThreshold eq) (q eq),
                    C := C eq @ map (batch (flushThreshold eq) (q eq)) [0..<j],
                    eventsFlushed := eventsFlushed eq + j\<rparr>)"
  using assms
proof (induction j arbitrary: eq)
  case 0
  then have "length (q eq) < flushThreshold eq"
    by (simp add: div_eq_0_iff)
  then show ?case
    by (subst flush_full.simps) simp
next
  case (Suc j)
  let ?N = "flushThreshold eq"
  let ?eq' = "eq\<lparr>q := drop ?N (q eq), C := C eq @ [take ?N (q eq)],
                  eventsFlushed := eventsFlushed eq + 1\<rparr>"
  from Suc.prems have ge: "?N \<le> length (q eq)"
    by (metis div_less not_less old.nat.distinct(2))
  from Suc.prems ge have j: "j = length (q ?eq') div flushThreshold ?eq'"
    by (simp add: le_div_geq)
  have N': "0 < flushThreshold ?eq'"
    using Suc.prems by simp
  have step: "flush_full eq = flush_full ?eq'"
    using ge by (subst flush_full.simps) simp
  have shift: "map (batch ?N (drop ?N (q eq))) [0..<j]
                 = map (\<lambda>i. batch ?N (q eq) (Suc i)) [0..<j]"
    by (simp add: batch_def add.commute)
  show ?case
    unfolding step Suc.IH [OF N' j]
    by (simp add: map_upt_Suc_shift shift batch_def add.commute del: upt_Suc)
qed


lemma batch_append_early:
  assumes "Suc i * n \<le> length xs"
  shows "batch n (xs @ ys) i = batch n xs i"
proof -
  have "i * n + n \<le> length xs" using assms by simp
  then show ?thesis by (simp add: batch_def)
qed

lemma batch_drop: "batch n (drop (k * n) xs) i = batch n xs (k + i)"
  by (simp add: batch_def add_mult_distrib add.commute)

lemma Queue_queue_after:
  assumes "0 < n"
  shows "Queue (queue_after n xs) evs = Some (queue_after n (xs @ evs))"
proof -
  let ?k = "length xs div n"
  let ?Q = "drop (?k * n) xs @ evs"
  let ?j = "length ?Q div n"
  have le: "?k * n \<le> length xs"
    by simp
  have lenQ: "length ?Q = length xs mod n + length evs"
    by (simp add: minus_div_mult_eq_mod)
  have k': "length (xs @ evs) div n = ?k + ?j"
  proof -
    have "length (xs @ evs) = ?k * n + (length xs mod n + length evs)"
      by simp
    then show ?thesis
      using assms lenQ by (metis div_mult_self3 less_numeral_extra(3))
  qed
  have Q: "?Q = drop (?k * n) (xs @ evs)"
    using le by simp
  have early: "map (batch n xs) [0..<?k] = map (batch n (xs @ evs)) [0..<?k]"
  proof (rule map_cong [OF refl])
    fix i assume "i \<in> set [0..<?k]"
    then have "Suc i \<le> ?k" by simp
    then have "Suc i * n \<le> ?k * n" by (rule mult_le_mono1)
    with le have "Suc i * n \<le> length xs" by (rule order_trans [rotated])
    then show "batch n xs i = batch n (xs @ evs) i"
      by (simp add: batch_append_early)
  qed
  have late: "map (batch n ?Q) [0..<?j] = map (batch n (xs @ evs)) [?k..<?j + ?k]"
  proof -
    have "batch n ?Q i = batch n (xs @ evs) (i + ?k)" for i
      by (subst Q) (simp only: batch_drop add.commute)
    then have "map (batch n ?Q) [0..<?j] = map (batch n (xs @ evs)) (map (\<lambda>i. i + ?k) [0..<?j])"
      by (simp add: comp_def)
    then show ?thesis
      by (simp only: map_add_upt)
  qed
  have C: "map (batch n xs) [0..<?k] @ map (batch n ?Q) [0..<?j]
             = map (batch n (xs @ evs)) [0..<?k + ?j]"
    unfolding early late map_append [symmetric]
    by (simp only: upt_add_eq_append [OF le0, symmetric] add.commute)
  have dropQ: "drop (?j * n) ?Q = drop ((?k + ?j) * n) (xs @ evs)"
    by (subst Q) (simp only: drop_drop add_mult_distrib add.commute)
  have "Queue (queue_after n xs) evs
          = Some \<lparr>q = drop (?j * n) ?Q,
                  C = map (batch n xs) [0..<?k] @ map (batch n ?Q) [0..<?j],
                  flushThreshold = n, eventsFlushed = ?k + ?j\<rparr>"
    unfolding Queue_def
    by (subst flush_full_batches [where j = ?j]) (simp_all add: queue_after_def assms)
  then have "Queue (queue_after n xs) evs
          = Some \<lparr>q = drop ((?k + ?j) * n) (xs @ evs),
                  C = map (batch n (xs @ evs)) [0..<?k + ?j],
                  flushThreshold = n, eventsFlushed = ?k + ?j\<rparr>"
    unfolding C dropQ .
  also have "\<dots> = Some (queue_after n (xs @ evs))"
    unfolding queue_after_def k' ..
  finally show ?thesis .
qed

lemma Queue_calls_queue_after:
  assumes "0 < n"
  shows "Queue_calls (queue_after n xs) ess = Some (queue_after n (xs @ concat ess))"
  by (induction ess arbitrary: xs) (simp_all add: Queue_queue_after [OF assms])

lemma NewEventQueue_queue_after: "NewEventQueue n = queue_after n []"
  by (simp add: NewEventQueue_def queue_after_def)

text \<open>
  C4. A fresh queue with threshold \<open>N\<close> that is fed \<open>k * N + m\<close> events (\<open>m < N\<close>) by any
  sequence \<open>ess\<close> of calls of \<open>Queue\<close>: every call returns, and after the last one the
  channel has received exactly the \<open>k\<close> batches of \<open>N\<close> consecutive events each, in the order
  the events went in, the flush counter stands at \<open>k\<close>, and the buffer holds the last \<open>m\<close>
  events. As this holds after every call, no call returns with \<open>N\<close> or more events buffered.
\<close>

theorem Queue_threshold_batches:
  assumes "length (concat ess) = k * N + m" and "m < N"
  shows "Queue_calls (NewEventQueue N) ess =
           Some \<lparr>q = drop (k * N) (concat ess),
                 C = map (\<lambda>i. take N (drop (i * N) (concat ess))) [0..<k],
                 flushThreshold = N,
                 eventsFlushed = k\<rparr>
         \<and> length (drop (k * N) (concat ess)) = m
         \<and> concat (map (\<lambda>i. take N (drop (i * N) (concat ess))) [0..<k]) @ drop (k * N) (concat ess)
             = concat ess
         \<and> (\<forall>i < k. length (take N (drop (i * N) (concat ess))) = N)"
proof -
  from assms have N: "0 < N" by simp
  from assms have k: "length (concat ess) div N = k" by simp
  have run: "Queue_calls (NewEventQueue N) ess = Some (queue_after N (concat ess))"
    unfolding NewEventQueue_queue_after using Queue_calls_queue_after [OF N, of "[]" ess] by simp
  have full: "\<forall>i < k. length (take N (drop (i * N) (concat ess))) = N"
  proof (intro allI impI)
    fix i assume "i < k"
    then have "Suc i \<le> k" by simp
    then have "Suc i * N \<le> k * N" by (rule mult_le_mono1)
    then have "i * N + N \<le> length (concat ess)" using assms by simp
    then show "length (take N (drop (i * N) (concat ess))) = N" by simp
  qed
  have cat: "concat (map (\<lambda>i. take N (drop (i * N) xs)) [0..<j]) = take (j * N) xs" for xs :: "event list" and j
  proof (induction j)
    case 0
    then show ?case by simp
  next
    case (Suc j)
    have "take (Suc j * N) xs = take (j * N) xs @ take N (drop (j * N) xs)"
      using take_add [of "j * N" N xs] by (simp add: add.commute)
    with Suc show ?case by simp
  qed
  show ?thesis
    using run full assms by (simp add: queue_after_def k batch_def cat)
qed

theorem Queue_threshold_batches_witness:
  "length (concat queue_calls0) = 2 * 5 + 3 \<and> (3::nat) < 5 \<and>
   map_option (\<lambda>e. (map length (C e), length (q e), eventsFlushed e))
     (Queue_calls (NewEventQueue 5) queue_calls0) = Some ([5, 5], 3, 2)"
proof -
  have len: "length (concat queue_calls0) = 2 * 5 + 3"
    by (simp add: queue_calls0_def)
  have m: "(3::nat) < 5"
    by simp
  have upt2: "[0..<2] = [0, Suc 0]"
    by (simp add: upt_rec)
  show ?thesis
    using len m Queue_threshold_batches [OF len m]
    by (simp add: upt2)
qed


section \<open>What the tag parsers leave alone\<close>

lemma SplitN2_at_first:
  assumes "sep \<notin> set name"
  shows "SplitN2 (name @ sep # rest) sep = [name, rest]"
proof -
  from assms have all: "\<forall>x \<in> set name. x \<noteq> sep"
    by blast
  have "takeWhile (\<lambda>c. c \<noteq> sep) (name @ sep # rest) = name"
    using all by simp
  moreover have "dropWhile (\<lambda>c. c \<noteq> sep) (name @ sep # rest) = sep # rest"
    using all by simp
  ultimately show ?thesis
    by (simp add: SplitN2_def)
qed

lemma parseTag_keeps:
  "events (parseTag env tag sep st) = events st"
  "sampleErrors (ctr (parseTag env tag sep st)) = sampleErrors (ctr st)"
  "samplesReceived (ctr (parseTag env tag sep st)) = samplesReceived (ctr st)"
  "tagsReceived (ctr (parseTag env tag sep st)) = tagsReceived (ctr st)"
  by (simp_all add: parseTag_def inc_tagErrors_def Let_def)

lemma parseNameTags_loop_keeps:
  "events (parseNameTags_loop env s cur st) = events st"
  "sampleErrors (ctr (parseNameTags_loop env s cur st)) = sampleErrors (ctr st)"
  "samplesReceived (ctr (parseNameTags_loop env s cur st)) = samplesReceived (ctr st)"
  "tagsReceived (ctr (parseNameTags_loop env s cur st)) = tagsReceived (ctr st)"
  by (induction env s cur st rule: parseNameTags_loop.induct) (simp_all add: parseTag_keeps)

lemma ParseDogStatsDTags_loop_keeps:
  "events (ParseDogStatsDTags_loop env s cur st) = events st"
  "sampleErrors (ctr (ParseDogStatsDTags_loop env s cur st)) = sampleErrors (ctr st)"
  "samplesReceived (ctr (ParseDogStatsDTags_loop env s cur st)) = samplesReceived (ctr st)"
  "tagsReceived (ctr (ParseDogStatsDTags_loop env s cur st)) = tagsReceived (ctr st)"
  by (induction env s cur st rule: ParseDogStatsDTags_loop.induct) (simp_all add: parseTag_keeps)

lemma ParseDogStatsDTags_keeps:
  "events (ParseDogStatsDTags env s st) = events st"
  "sampleErrors (ctr (ParseDogStatsDTags env s st)) = sampleErrors (ctr st)"
  "samplesReceived (ctr (ParseDogStatsDTags env s st)) = samplesReceived (ctr st)"
  "tagsReceived (ctr (ParseDogStatsDTags env s st)) = tagsReceived (ctr st)"
  by (simp_all add: ParseDogStatsDTags_def ParseDogStatsDTags_loop_keeps)

lemma parseNameAndTags_keeps:
  "events (snd (parseNameAndTags env name st)) = events st"
  "sampleErrors (ctr (snd (parseNameAndTags env name st))) = sampleErrors (ctr st)"
  "samplesReceived (ctr (snd (parseNameAndTags env name st))) = samplesReceived (ctr st)"
  "tagsReceived (ctr (snd (parseNameAndTags env name st))) = tagsReceived (ctr st)"
  by (simp_all add: parseNameAndTags_def parseNameTags_def Let_def parseNameTags_loop_keeps)

section \<open>Mixed tagging styles\<close>

text \<open>
  C5. A line that reaches the parsing of its name part (it has a colon and is valid
  UTF-8), whose name part left at least one tag in the label map and whose part after the
  first colon contains \<open>|#\<close>: no events, \<open>sample_errors{reason="mixed_tagging_styles"}\<close> one
  higher, and no sample is counted.
\<close>

theorem LineToEvents_mixed_tagging_styles:
  assumes "line = name @ CHR '':'' # rest" and "CHR '':'' \<notin> set name"
    and "ValidString line"
    and "Contains rest ''|#''"
    and "labels (snd (parseNameAndTags env name \<lparr>labels = [], events = [], ctr = c\<rparr>)) \<noteq> []"
  shows "fst (LineToEvents env line c) = []
       \<and> sampleErrors (snd (LineToEvents env line c))
           = (sampleErrors c)(mixed_tagging_styles := sampleErrors c mixed_tagging_styles + 1)
       \<and> samplesReceived (snd (LineToEvents env line c)) = samplesReceived c
       \<and> tagsReceived (snd (LineToEvents env line c)) = tagsReceived c"
proof -
  let ?init = "\<lparr>labels = [], events = [], ctr = c\<rparr>"
  obtain metric st where p: "parseNameAndTags env name ?init = (metric, st)"
    by (cases "parseNameAndTags env name ?init")
  have "name \<noteq> []"
    using assms(5) by (auto simp: parseNameAndTags_def)
  moreover have "line \<noteq> []"
    using assms(1) by simp
  moreover have "SplitN2 line CHR '':'' = [name, rest]"
    unfolding assms(1) using assms(2) by (rule SplitN2_at_first)
  moreover have "labels st \<noteq> []"
    using assms(5) p by simp
  ultimately have "LineToEvents env line c = ([], sampleErrors_Inc mixed_tagging_styles (ctr st))"
    using assms(3,4) p by (simp add: LineToEvents_def)
  moreover have "sampleErrors (ctr st) = sampleErrors c"
    "samplesReceived (ctr st) = samplesReceived c" "tagsReceived (ctr st) = tagsReceived c"
    using parseNameAndTags_keeps [of env name ?init] p by simp_all
  ultimately show ?thesis
    by (simp add: sampleErrors_Inc_def)
qed

lemma mixed_example_valid: "ValidString (''foo#tag1=foo'' @ CHR '':'' # ''100|c|#tag1:bar'')"
  by code_simp

lemma mixed_example_contains: "Contains ''100|c|#tag1:bar'' ''|#''"
  by code_simp

lemma mixed_example_labels:
  "labels (snd (parseNameAndTags env0 ''foo#tag1=foo'' \<lparr>labels = [], events = [], ctr = counters0\<rparr>)) \<noteq> []"
  by code_simp

theorem LineToEvents_mixed_tagging_styles_witness:
  "CHR '':'' \<notin> set ''foo#tag1=foo'' \<and>
   ValidString (''foo#tag1=foo'' @ CHR '':'' # ''100|c|#tag1:bar'') \<and>
   Contains ''100|c|#tag1:bar'' ''|#'' \<and>
   labels (snd (parseNameAndTags env0 ''foo#tag1=foo'' \<lparr>labels = [], events = [], ctr = counters0\<rparr>)) \<noteq> [] \<and>
   fst (LineToEvents env0 ''foo#tag1=foo:100|c|#tag1:bar'' counters0) = [] \<and>
   sampleErrors (snd (LineToEvents env0 ''foo#tag1=foo:100|c|#tag1:bar'' counters0)) mixed_tagging_styles = 1"
proof -
  have c: "CHR '':'' \<notin> set ''foo#tag1=foo''"
    by simp
  show ?thesis
    using c mixed_example_valid mixed_example_contains mixed_example_labels
      LineToEvents_mixed_tagging_styles [OF refl c mixed_example_valid mixed_example_contains
        mixed_example_labels]
    by (simp add: counters0_def)
qed



section \<open>The loop over the samples\<close>

lemma LineToEvents_samples:
  assumes "samples_of_line env line c = Some (metric, st1, samples)"
  shows "LineToEvents env line c =
           (events (foldl (sample_step env metric) st1 samples),
            ctr (foldl (sample_step env metric) st1 samples))"
  using assms
  by (auto simp: samples_of_line_def LineToEvents_def Let_def split: if_splits prod.splits)

lemma LineToEvents_at_sample:
  assumes "samples_of_line env line c = Some (metric, st1, before @ sample # after)"
  shows "LineToEvents env line c =
           (events (foldl (sample_step env metric)
                      (sample_step env metric (foldl (sample_step env metric) st1 before) sample) after),
            ctr (foldl (sample_step env metric)
                   (sample_step env metric (foldl (sample_step env metric) st1 before) sample) after))"
  by (simp add: LineToEvents_samples [OF assms])

lemma inc_keeps_events [simp]:
  "events (inc_sampleErrors r st) = events st"
  "events (inc_samplesReceived st) = events st"
  "events (inc_tagErrors st) = events st"
  "events (inc_tagsReceived st) = events st"
  by (simp_all add: inc_sampleErrors_def inc_samplesReceived_def inc_tagErrors_def
      inc_tagsReceived_def)

lemma inc_keeps_labels [simp]:
  "labels (inc_sampleErrors r st) = labels st"
  "labels (inc_samplesReceived st) = labels st"
  "labels (inc_tagErrors st) = labels st"
  "labels (inc_tagsReceived st) = labels st"
  by (simp_all add: inc_sampleErrors_def inc_samplesReceived_def inc_tagErrors_def
      inc_tagsReceived_def)

subsection \<open>The loop that builds the events\<close>

lemma build_loop_Inr:
  assumes "buildEvent statType metric val relative (labels st) = Inr ev"
  shows "build_loop statType metric val relative n st = st\<lparr>events := events st @ replicate n ev\<rparr>"
  using assms
proof (induction n arbitrary: st)
  case 0
  then show ?case by simp
next
  case (Suc n)
  let ?st' = "st\<lparr>events := events st @ [ev]\<rparr>"
  have "buildEvent statType metric val relative (labels ?st') = Inr ev"
    using Suc.prems by simp
  from Suc.IH [OF this] Suc.prems show ?case
    by (simp add: replicate_app_Cons_same)
qed

lemma build_loop_Inl:
  assumes "buildEvent statType metric val relative (labels st) = Inl err"
  shows "events (build_loop statType metric val relative n st) = events st"
  using assms
proof (induction n arbitrary: st)
  case 0
  then show ?case by simp
next
  case (Suc n)
  have "buildEvent statType metric val relative (labels (inc_sampleErrors illegal_event st)) = Inl err"
    using Suc.prems by simp
  from Suc.IH [OF this] Suc.prems show ?case
    by simp
qed

lemma build_loop_events_append:
  "\<exists>zs. events (build_loop statType metric val relative n st) = events st @ zs"
proof (cases "buildEvent statType metric val relative (labels st)")
  case (Inl err)
  then show ?thesis by (simp add: build_loop_Inl)
next
  case (Inr ev)
  then show ?thesis by (simp add: build_loop_Inr)
qed

subsection \<open>The loop over the modifiers\<close>

lemma modifier_step_events:
  "events (snd (modifier_step env statType vst m)) = events (snd vst)"
  by (cases m)
     (auto simp: modifier_step_def Let_def ParseDogStatsDTags_keeps split: prod.splits)

lemma foldl_modifier_step_events:
  "events (snd (foldl (modifier_step env statType) vst ms)) = events (snd vst)"
  by (induction ms arbitrary: vst) (simp_all add: modifier_step_events)

lemma modifier_step_samplesReceived:
  "samplesReceived (ctr (snd (modifier_step env statType vst m))) = samplesReceived (ctr (snd vst))"
  "tagsReceived (ctr (snd (modifier_step env statType vst m))) = tagsReceived (ctr (snd vst))"
  by (cases m;
      auto simp: modifier_step_def Let_def ParseDogStatsDTags_keeps inc_sampleErrors_def
        sampleErrors_Inc_def split: prod.splits)+

lemma foldl_modifier_step_samplesReceived:
  "samplesReceived (ctr (snd (foldl (modifier_step env statType) vst ms))) = samplesReceived (ctr (snd vst))"
  "tagsReceived (ctr (snd (foldl (modifier_step env statType) vst ms))) = tagsReceived (ctr (snd vst))"
  by (induction ms arbitrary: vst) (simp_all add: modifier_step_samplesReceived)

text \<open>A modifier that is not a sample rate leaves the value and the number of copies alone.\<close>

lemma modifier_step_other:
  assumes "m \<noteq> []" and "hd m \<noteq> CHR ''@''"
  shows "fst (modifier_step env statType vst m) = fst vst"
  using assms by (cases m) (auto simp: modifier_step_def Let_def)

lemma foldl_modifier_step_other:
  assumes "\<forall>m \<in> set ms. m \<noteq> [] \<and> hd m \<noteq> CHR ''@''"
  shows "fst (foldl (modifier_step env statType) vst ms) = fst vst"
  using assms by (induction ms arbitrary: vst) (simp_all add: modifier_step_other)

text \<open>For a gauge no modifier changes the value or the number of copies.\<close>

lemma modifier_step_gauge:
  "sample_value (fst (modifier_step env ''g'' vst m)) = sample_value (fst vst)"
  "multiplyEvents (fst (modifier_step env ''g'' vst m)) = multiplyEvents (fst vst)"
  by (cases m; auto simp: modifier_step_def Let_def split: prod.splits)+

lemma foldl_modifier_step_gauge:
  "sample_value (fst (foldl (modifier_step env ''g'') vst ms)) = sample_value (fst vst)"
  "multiplyEvents (fst (foldl (modifier_step env ''g'') vst ms)) = multiplyEvents (fst vst)"
  by (induction ms arbitrary: vst) (simp_all add: modifier_step_gauge)

subsection \<open>A sample that passes the checks\<close>

lemma sample_step_run:
  assumes "Split sample CHR ''|'' = valueStr # statType # mods"
    and "length mods \<le> 2"
    and "\<forall>m \<in> set mods. m \<noteq> []"
    and "ParseFloat env valueStr = (v, None)"
    and "foldl (modifier_step env statType)
           (\<lparr>samplingFactor = Finite 1, sample_value = v, multiplyEvents = 1\<rparr>,
            inc_samplesReceived st) mods = (vs, st1)"
  shows "sample_step env metric st sample =
           build_loop statType metric (sample_value vs) (is_relative valueStr)
             (nat (multiplyEvents vs))
             (if 0 < length (labels st1) then inc_tagsReceived st1 else st1)"
  using assms by (auto simp: sample_step_def Let_def is_relative_def)

lemma sample_step_events_append:
  "\<exists>zs. events (sample_step env metric st sample) = events st @ zs"
proof -
  define comps where "comps = Split sample CHR ''|''"
  obtain val err where pf: "ParseFloat env (comps ! 0) = (val, err)"
    by (cases "ParseFloat env (comps ! 0)")
  obtain vs st1 where fl:
    "foldl (modifier_step env (comps ! 1))
       (\<lparr>samplingFactor = Finite 1, sample_value = val, multiplyEvents = 1\<rparr>,
        inc_samplesReceived st) (drop 2 comps) = (vs, st1)"
    by (cases "foldl (modifier_step env (comps ! 1))
       (\<lparr>samplingFactor = Finite 1, sample_value = val, multiplyEvents = 1\<rparr>,
        inc_samplesReceived st) (drop 2 comps)")
  have ev1: "events st1 = events st"
    using foldl_modifier_step_events
      [of env "comps ! 1" "(\<lparr>samplingFactor = Finite 1, sample_value = val, multiplyEvents = 1\<rparr>,
        inc_samplesReceived st)" "drop 2 comps"] fl
    by simp
  show ?thesis
  proof (cases "length comps < 2 \<or> 4 < length comps \<or> err \<noteq> None
                  \<or> (3 \<le> length comps \<and> (\<exists>c \<in> set (drop 2 comps). length c = 0))")
    case True
    then have "events (sample_step env metric st sample) = events st"
      unfolding sample_step_def comps_def [symmetric] using pf
      by (auto simp: Let_def)
    then show ?thesis by simp
  next
    case False
    then have "sample_step env metric st sample =
                 build_loop (comps ! 1) metric (sample_value vs) (is_relative (comps ! 0))
                   (nat (multiplyEvents vs))
                   (if 0 < length (labels st1) then inc_tagsReceived st1 else st1)"
      unfolding sample_step_def comps_def [symmetric] using pf fl
      by (auto simp: Let_def is_relative_def)
    moreover have "\<exists>zs. events (build_loop (comps ! 1) metric (sample_value vs)
                     (is_relative (comps ! 0)) (nat (multiplyEvents vs))
                     (if 0 < length (labels st1) then inc_tagsReceived st1 else st1))
                   = events (if 0 < length (labels st1) then inc_tagsReceived st1 else st1) @ zs"
      by (rule build_loop_events_append)
    ultimately show ?thesis
      using ev1 by auto
  qed
qed

lemma foldl_sample_step_events_append:
  "\<exists>zs. events (foldl (sample_step env metric) st ss) = events st @ zs"
proof (induction ss arbitrary: st)
  case Nil
  then show ?case by simp
next
  case (Cons s ss)
  from Cons.IH [of "sample_step env metric st s"] sample_step_events_append [of env metric st s]
  show ?case by auto
qed


section \<open>Gauges ignore the sample rate\<close>

lemma sample_step_gauge:
  assumes "Split sample CHR ''|'' = valueStr # ''g'' # mods"
    and "length mods \<le> 2"
    and "\<forall>m \<in> set mods. m \<noteq> []"
    and "ParseFloat env valueStr = (v, None)"
  shows "\<exists>lbls. events (sample_step env metric st sample)
           = events st @ [GaugeEvent metric v (is_relative valueStr) lbls]"
proof -
  let ?init = "(\<lparr>samplingFactor = Finite 1, sample_value = v, multiplyEvents = 1\<rparr>,
                inc_samplesReceived st)"
  obtain vs st1 where fl: "foldl (modifier_step env ''g'') ?init mods = (vs, st1)"
    by (cases "foldl (modifier_step env ''g'') ?init mods")
  let ?st2 = "if 0 < length (labels st1) then inc_tagsReceived st1 else st1"
  have vs: "sample_value vs = v" "multiplyEvents vs = 1"
    using foldl_modifier_step_gauge [of env ?init mods] fl by simp_all
  have ev: "events ?st2 = events st"
    using foldl_modifier_step_events [of env "''g''" ?init mods] fl by simp
  have "sample_step env metric st sample =
          build_loop ''g'' metric v (is_relative valueStr) (nat 1) ?st2"
    using sample_step_run [OF assms fl, of metric] vs by simp
  also have "\<dots> = ?st2\<lparr>events := events ?st2
                 @ replicate (nat 1) (GaugeEvent metric v (is_relative valueStr) (labels ?st2))\<rparr>"
    by (rule build_loop_Inr) (simp add: buildEvent_def)
  finally show ?thesis
    using ev by auto
qed

text \<open>
  C6. A gauge sample that passes the checks of the loop (two to four components, a value
  that parses, no empty modifier) gives exactly one \<open>GaugeEvent\<close>, with the value as
  parsed, whatever its modifiers \<open>mods\<close> are: with or without a sample rate, and
  whatever the rate. In the sequence that \<open>LineToEvents\<close> returns, the event stands
  right after the events of the samples before it.
\<close>

theorem LineToEvents_gauge_sample_rate:
  assumes "samples_of_line env line c = Some (metric, st1, before @ sample # after)"
    and "st = foldl (sample_step env metric) st1 before"
    and "Split sample CHR ''|'' = valueStr # ''g'' # mods"
    and "length mods \<le> 2"
    and "\<forall>m \<in> set mods. m \<noteq> []"
    and "ParseFloat env valueStr = (v, None)"
  shows "\<exists>lbls zs.
           events (sample_step env metric st sample)
             = events st @ [GaugeEvent metric v (is_relative valueStr) lbls]
         \<and> fst (LineToEvents env line c)
             = events st @ [GaugeEvent metric v (is_relative valueStr) lbls] @ zs"
proof -
  obtain lbls where one: "events (sample_step env metric st sample)
      = events st @ [GaugeEvent metric v (is_relative valueStr) lbls]"
    using sample_step_gauge [OF assms(3-6)] by blast
  obtain zs where "events (foldl (sample_step env metric) (sample_step env metric st sample) after)
      = events (sample_step env metric st sample) @ zs"
    using foldl_sample_step_events_append by blast
  then have "fst (LineToEvents env line c)
      = events st @ [GaugeEvent metric v (is_relative valueStr) lbls] @ zs"
    using LineToEvents_at_sample [OF assms(1)] one assms(2) by simp
  with one show ?thesis by blast
qed

lemma gauge_example_valid: "ValidString ''foo:3|g|@0.2''"
  by code_simp

lemma gauge_example_samples:
  "samples_of_line env0 ''foo:3|g|@0.2'' counters0
     = Some (''foo'', \<lparr>labels = [], events = [], ctr = counters0\<rparr>, [] @ ''3|g|@0.2'' # [])"
  by (simp add: samples_of_line_def SplitN2_def gauge_example_valid parseNameAndTags_def
      HasPrefix_def Let_def)

lemma gauge_example_split: "Split ''3|g|@0.2'' CHR ''|'' = ''3'' # ''g'' # [''@0.2'']"
  by simp

lemma gauge_example_value: "ParseFloat env0 ''3'' = (Finite 3, None)"
  by (simp add: ParseFloat_dec_examples)

theorem LineToEvents_gauge_sample_rate_witness:
  "samples_of_line env0 ''foo:3|g|@0.2'' counters0
     = Some (''foo'', \<lparr>labels = [], events = [], ctr = counters0\<rparr>, [] @ ''3|g|@0.2'' # []) \<and>
   Split ''3|g|@0.2'' CHR ''|'' = ''3'' # ''g'' # [''@0.2''] \<and>
   length [''@0.2''] \<le> 2 \<and>
   ParseFloat env0 ''3'' = (Finite 3, None) \<and>
   (\<exists>lbls zs. fst (LineToEvents env0 ''foo:3|g|@0.2'' counters0)
      = [GaugeEvent ''foo'' (Finite 3) (is_relative ''3'') lbls] @ zs)"
proof -
  have l: "length [''@0.2''] \<le> 2" and n: "\<forall>m \<in> set [''@0.2'']. m \<noteq> []"
    by simp_all
  have "\<exists>lbls zs. fst (LineToEvents env0 ''foo:3|g|@0.2'' counters0)
      = [GaugeEvent ''foo'' (Finite 3) (is_relative ''3'') lbls] @ zs"
    using LineToEvents_gauge_sample_rate
      [OF gauge_example_samples _ gauge_example_split l n gauge_example_value,
       of "\<lparr>labels = [], events = [], ctr = counters0\<rparr>"]
    by auto
  then show ?thesis
    using gauge_example_samples gauge_example_split gauge_example_value by simp
qed


section \<open>Samples with one sample-rate modifier\<close>

lemma flt_zero_not_feq0: "flt (Finite 0) r \<Longrightarrow> \<not> feq0 r"
  by (auto simp: flt_def fle_def feq0_def fisNaN_def fneg_def fmag_def)

lemma isTimer_not_other: "isTimer t \<Longrightarrow> t \<noteq> ''g'' \<and> t \<noteq> ''c''"
  by (auto simp: isTimer_def)

lemma modifier_step_rate_counter:
  assumes "ParseFloat env rs = (r, err)" and "\<not> feq0 r"
  shows "fst (modifier_step env ''c'' vst (CHR ''@'' # rs))
           = (fst vst)\<lparr>samplingFactor := r, sample_value := fdiv (sample_value (fst vst)) r\<rparr>"
  using assms by (simp add: modifier_step_def Let_def)

lemma modifier_step_rate_timer:
  assumes "ParseFloat env rs = (r, err)" and "\<not> feq0 r" and "isTimer t"
  shows "fst (modifier_step env t vst (CHR ''@'' # rs))
           = (fst vst)\<lparr>samplingFactor := r,
                         multiplyEvents := float64_to_int (fdiv (Finite 1) r)\<rparr>"
  using assms isTimer_not_other [of t] by (auto simp: modifier_step_def Let_def isTimer_def)

lemma foldl_modifier_step_one_rate:
  assumes "\<forall>m \<in> set (pre @ post). m \<noteq> [] \<and> hd m \<noteq> CHR ''@''"
  shows "fst (foldl (modifier_step env t) (vs0, st0) (pre @ (CHR ''@'' # rs) # post))
           = fst (modifier_step env t (vs0, snd (foldl (modifier_step env t) (vs0, st0) pre))
                    (CHR ''@'' # rs))"
proof -
  have pre: "fst (foldl (modifier_step env t) (vs0, st0) pre) = vs0"
    using assms foldl_modifier_step_other [of pre env t "(vs0, st0)"] by simp
  have post: "fst (foldl (modifier_step env t) x post) = fst x" for x
    using assms foldl_modifier_step_other [of post env t x] by simp
  have "foldl (modifier_step env t) (vs0, st0) pre
          = (vs0, snd (foldl (modifier_step env t) (vs0, st0) pre))"
    using pre by (metis prod.collapse)
  then show ?thesis
    by (simp add: post)
qed

lemma sample_step_counter_rate:
  assumes "Split sample CHR ''|'' = valueStr # ''c'' # mods"
    and "length mods \<le> 2"
    and "mods = pre @ (CHR ''@'' # rs) # post"
    and "\<forall>m \<in> set (pre @ post). m \<noteq> [] \<and> hd m \<noteq> CHR ''@''"
    and "ParseFloat env valueStr = (v, None)"
    and "ParseFloat env rs = (r, err)"
    and "\<not> feq0 r"
  shows "\<exists>lbls. events (sample_step env metric st sample)
           = events st @ [CounterEvent metric (fdiv v r) lbls]"
proof -
  let ?vs0 = "\<lparr>samplingFactor = Finite 1, sample_value = v, multiplyEvents = 1\<rparr>"
  let ?init = "(?vs0, inc_samplesReceived st)"
  obtain vs st1 where fl: "foldl (modifier_step env ''c'') ?init mods = (vs, st1)"
    by (cases "foldl (modifier_step env ''c'') ?init mods")
  let ?st2 = "if 0 < length (labels st1) then inc_tagsReceived st1 else st1"
  have nonempty: "\<forall>m \<in> set mods. m \<noteq> []"
    using assms(3,4) by auto
  have "vs = fst (foldl (modifier_step env ''c'') ?init (pre @ (CHR ''@'' # rs) # post))"
    using fl assms(3) by simp
  also have "\<dots> = ?vs0\<lparr>samplingFactor := r, sample_value := fdiv v r\<rparr>"
    unfolding foldl_modifier_step_one_rate [OF assms(4)]
    by (simp add: modifier_step_rate_counter [OF assms(6,7)])
  finally have vs: "sample_value vs = fdiv v r" "multiplyEvents vs = 1"
    by simp_all
  have ev: "events ?st2 = events st"
    using foldl_modifier_step_events [of env "''c''" ?init mods] fl by simp
  have "sample_step env metric st sample =
          build_loop ''c'' metric (fdiv v r) (is_relative valueStr) (nat 1) ?st2"
    using sample_step_run [OF assms(1,2) nonempty assms(5) fl, of metric] vs by simp
  also have "\<dots> = ?st2\<lparr>events := events ?st2
                 @ replicate (nat 1) (CounterEvent metric (fdiv v r) (labels ?st2))\<rparr>"
    by (rule build_loop_Inr) (simp add: buildEvent_def)
  finally show ?thesis
    using ev by auto
qed

text \<open>How many copies the conversion of a finite quotient below \<open>2^63\<close> gives.\<close>

lemma nat_float64_to_int:
  assumes "x < 2 ^ 63"
  shows "nat (float64_to_int (Finite x)) = nat \<lfloor>x\<rfloor>"
proof (cases "0 \<le> x")
  case True
  then have "0 \<le> \<lfloor>x\<rfloor>" by simp
  moreover have "\<lfloor>x\<rfloor> < 2 ^ 63"
    using assms by (simp add: floor_less_iff)
  ultimately show ?thesis
    using True by (simp add: float64_to_int_def trunc_def MinInt64_def Let_def)
next
  case False
  then have "\<lfloor>x\<rfloor> < 0" "\<lceil>x\<rceil> \<le> 0"
    by (simp_all add: floor_less_iff ceiling_le_iff)
  then show ?thesis
    using False by (simp add: float64_to_int_def trunc_def MinInt64_def Let_def)
qed

lemma sample_step_timer_rate:
  assumes "Split sample CHR ''|'' = valueStr # statType # mods"
    and "isTimer statType"
    and "length mods \<le> 2"
    and "mods = pre @ (CHR ''@'' # rs) # post"
    and "\<forall>m \<in> set (pre @ post). m \<noteq> [] \<and> hd m \<noteq> CHR ''@''"
    and "ParseFloat env valueStr = (v, None)"
    and "ParseFloat env rs = (r, err)"
    and "\<not> feq0 r"
  shows "\<exists>lbls. events (sample_step env metric st sample)
           = events st @ replicate (nat (float64_to_int (fdiv (Finite 1) r)))
                           (TimerEvent metric v lbls)"
proof -
  let ?vs0 = "\<lparr>samplingFactor = Finite 1, sample_value = v, multiplyEvents = 1\<rparr>"
  let ?init = "(?vs0, inc_samplesReceived st)"
  let ?n = "float64_to_int (fdiv (Finite 1) r)"
  obtain vs st1 where fl: "foldl (modifier_step env statType) ?init mods = (vs, st1)"
    by (cases "foldl (modifier_step env statType) ?init mods")
  let ?st2 = "if 0 < length (labels st1) then inc_tagsReceived st1 else st1"
  have nonempty: "\<forall>m \<in> set mods. m \<noteq> []"
    using assms(4,5) by auto
  have "vs = fst (foldl (modifier_step env statType) ?init (pre @ (CHR ''@'' # rs) # post))"
    using fl assms(4) by simp
  also have "\<dots> = ?vs0\<lparr>samplingFactor := r, multiplyEvents := ?n\<rparr>"
    unfolding foldl_modifier_step_one_rate [OF assms(5)]
    by (simp add: modifier_step_rate_timer [OF assms(7,8,2)])
  finally have vs: "sample_value vs = v" "multiplyEvents vs = ?n"
    by simp_all
  have ev: "events ?st2 = events st"
    using foldl_modifier_step_events [of env statType ?init mods] fl by simp
  have "sample_step env metric st sample =
          build_loop statType metric v (is_relative valueStr) (nat ?n) ?st2"
    using sample_step_run [OF assms(1,3) nonempty assms(6) fl, of metric] vs by simp
  also have "\<dots> = ?st2\<lparr>events := events ?st2
                 @ replicate (nat ?n) (TimerEvent metric v (labels ?st2))\<rparr>"
    by (rule build_loop_Inr) (use assms(2) in \<open>auto simp: buildEvent_def isTimer_def\<close>)
  finally show ?thesis
    using ev by auto
qed


section \<open>Counters are scaled by the sample rate\<close>

text \<open>
  C2, as amended. A counter sample that passes the checks of the loop and has exactly
  one sample-rate modifier \<open>@r\<close> (any other modifier is of another kind), with the rate
  \<open>r\<close> in (0,1]: the sample gives exactly one \<open>CounterEvent\<close>, and its value is the
  parsed value divided by \<open>r\<close> in float64 arithmetic. In the sequence that \<open>LineToEvents\<close>
  returns, the event stands right after the events of the samples before it.
\<close>

theorem LineToEvents_counter_one_rate:
  assumes "samples_of_line env line c = Some (metric, st1, before @ sample # after)"
    and "st = foldl (sample_step env metric) st1 before"
    and "Split sample CHR ''|'' = valueStr # ''c'' # mods"
    and "length mods \<le> 2"
    and "mods = pre @ (CHR ''@'' # rs) # post"
    and "\<forall>m \<in> set (pre @ post). m \<noteq> [] \<and> hd m \<noteq> CHR ''@''"
    and "ParseFloat env valueStr = (v, None)"
    and "ParseFloat env rs = (r, None)"
    and "flt (Finite 0) r" and "fle r (Finite 1)"
  shows "\<exists>lbls zs.
           events (sample_step env metric st sample)
             = events st @ [CounterEvent metric (fdiv v r) lbls]
         \<and> fst (LineToEvents env line c)
             = events st @ [CounterEvent metric (fdiv v r) lbls] @ zs"
proof -
  have "\<not> feq0 r"
    using assms(9) by (rule flt_zero_not_feq0)
  then obtain lbls where one: "events (sample_step env metric st sample)
      = events st @ [CounterEvent metric (fdiv v r) lbls]"
    using sample_step_counter_rate [OF assms(3-8)] by blast
  obtain zs where "events (foldl (sample_step env metric) (sample_step env metric st sample) after)
      = events (sample_step env metric st sample) @ zs"
    using foldl_sample_step_events_append by blast
  then have "fst (LineToEvents env line c)
      = events st @ [CounterEvent metric (fdiv v r) lbls] @ zs"
    using LineToEvents_at_sample [OF assms(1)] one assms(2) by simp
  with one show ?thesis by blast
qed

lemma counter_example_valid: "ValidString ''foo:1|c|@0.5''"
  by code_simp

lemma counter_example_samples:
  "samples_of_line env0 ''foo:1|c|@0.5'' counters0
     = Some (''foo'', \<lparr>labels = [], events = [], ctr = counters0\<rparr>, [] @ ''1|c|@0.5'' # [])"
  by (simp add: samples_of_line_def SplitN2_def counter_example_valid parseNameAndTags_def
      HasPrefix_def Let_def)

lemma half_in_unit: "flt (Finite 0) (Finite (1 / 2))" "fle (Finite (1 / 2)) (Finite 1)"
  by (simp_all add: flt_def fle_def fisNaN_def fneg_def fmag_def)

theorem LineToEvents_counter_one_rate_witness:
  "samples_of_line env0 ''foo:1|c|@0.5'' counters0
     = Some (''foo'', \<lparr>labels = [], events = [], ctr = counters0\<rparr>, [] @ ''1|c|@0.5'' # []) \<and>
   Split ''1|c|@0.5'' CHR ''|'' = ''1'' # ''c'' # [''@0.5''] \<and>
   length [''@0.5''] \<le> 2 \<and>
   [''@0.5''] = [] @ (CHR ''@'' # ''0.5'') # [] \<and>
   ParseFloat env0 ''1'' = (Finite 1, None) \<and>
   ParseFloat env0 ''0.5'' = (Finite (1 / 2), None) \<and>
   flt (Finite 0) (Finite (1 / 2)) \<and> fle (Finite (1 / 2)) (Finite 1) \<and>
   (\<exists>lbls zs. fst (LineToEvents env0 ''foo:1|c|@0.5'' counters0)
      = [CounterEvent ''foo'' (Finite 2) lbls] @ zs)"
proof -
  have sp: "Split ''1|c|@0.5'' CHR ''|'' = ''1'' # ''c'' # [''@0.5'']"
    by simp
  have l: "length [''@0.5''] \<le> 2"
    and m: "[''@0.5''] = [] @ (CHR ''@'' # ''0.5'') # []"
    and n: "\<forall>m \<in> set ([] @ []). m \<noteq> [] \<and> hd m \<noteq> CHR ''@''"
    by simp_all
  have v: "ParseFloat env0 ''1'' = (Finite 1, None)"
    and r: "ParseFloat env0 ''0.5'' = (Finite (1 / 2), None)"
    by (simp_all add: ParseFloat_dec_examples)
  have "\<exists>lbls zs. fst (LineToEvents env0 ''foo:1|c|@0.5'' counters0)
      = [CounterEvent ''foo'' (Finite 2) lbls] @ zs"
    using LineToEvents_counter_one_rate
      [OF counter_example_samples _ sp l m n v r half_in_unit,
       of "\<lparr>labels = [], events = [], ctr = counters0\<rparr>"]
    by (auto simp: fdiv_examples)
  then show ?thesis
    using counter_example_samples sp v r half_in_unit by simp
qed

text \<open>
  The claim as it stands fails on a sample with two sample-rate modifiers: each of them
  divides the value. The line \<open>foo:1|c|@0.5|@0.5\<close> carries the rate 0.5, which is in (0,1];
  the value emitted is 4, and 1 divided by 0.5 is 2.
\<close>

lemma two_rates_valid: "ValidString ''foo:1|c|@0.5|@0.5''"
  by code_simp

lemma two_rates_samples:
  "samples_of_line env0 ''foo:1|c|@0.5|@0.5'' counters0
     = Some (''foo'', \<lparr>labels = [], events = [], ctr = counters0\<rparr>, [''1|c|@0.5|@0.5''])"
  by (simp add: samples_of_line_def SplitN2_def two_rates_valid parseNameAndTags_def
      HasPrefix_def Let_def)

lemma two_rates_events:
  "fst (LineToEvents env0 ''foo:1|c|@0.5|@0.5'' counters0) = [CounterEvent ''foo'' (Finite 4) []]"
proof -
  let ?st = "\<lparr>labels = [], events = [], ctr = counters0\<rparr>"
  let ?vs = "\<lparr>samplingFactor = Finite (1 / 2), sample_value = Finite 4, multiplyEvents = 1\<rparr>"
  have sp: "Split ''1|c|@0.5|@0.5'' CHR ''|'' = ''1'' # ''c'' # [''@0.5'', ''@0.5'']"
    by simp
  have fl: "foldl (modifier_step env0 ''c'')
              (\<lparr>samplingFactor = Finite 1, sample_value = Finite 1, multiplyEvents = 1\<rparr>,
               inc_samplesReceived ?st) [''@0.5'', ''@0.5'']
            = (?vs, inc_samplesReceived ?st)"
    by (simp add: modifier_step_def ParseFloat_dec_examples fdiv_examples feq0_def)
  have "sample_step env0 ''foo'' ?st ''1|c|@0.5|@0.5''
          = build_loop ''c'' ''foo'' (Finite 4) (is_relative ''1'') (nat 1) (inc_samplesReceived ?st)"
    using sample_step_run [OF sp _ _ _ fl, of "''foo''"]
    by (simp add: ParseFloat_dec_examples)
  also have "\<dots> = (inc_samplesReceived ?st)\<lparr>events := events (inc_samplesReceived ?st)
      @ replicate (nat 1) (CounterEvent ''foo'' (Finite 4) (labels (inc_samplesReceived ?st)))\<rparr>"
    by (rule build_loop_Inr) (simp add: buildEvent_def)
  finally show ?thesis
    by (simp add: LineToEvents_samples [OF two_rates_samples])
qed

theorem counter_two_rates_counterexample:
  "Split ''1|c|@0.5|@0.5'' CHR ''|'' = [''1'', ''c'', ''@0.5'', ''@0.5''] \<and>
   ParseFloat env0 ''1'' = (Finite 1, None) \<and>
   ParseFloat env0 ''0.5'' = (Finite (1 / 2), None) \<and>
   flt (Finite 0) (Finite (1 / 2)) \<and> fle (Finite (1 / 2)) (Finite 1) \<and>
   fst (LineToEvents env0 ''foo:1|c|@0.5|@0.5'' counters0) = [CounterEvent ''foo'' (Finite 4) []] \<and>
   fdiv (Finite 1) (Finite (1 / 2)) = Finite 2 \<and>
   \<not> (\<exists>lbls. fst (LineToEvents env0 ''foo:1|c|@0.5|@0.5'' counters0)
          = [CounterEvent ''foo'' (fdiv (Finite 1) (Finite (1 / 2))) lbls])"
  by (simp add: two_rates_events ParseFloat_dec_examples fdiv_examples half_in_unit)


section \<open>Timers are repeated by the sample rate\<close>

text \<open>
  C3, as amended. A timer sample (\<open>ms\<close>, \<open>h\<close> or \<open>d\<close>) that passes the checks of the loop and
  has exactly one sample-rate modifier \<open>@r\<close>, with \<open>r\<close> in (0,1] and the float64 quotient
  \<open>1/r\<close> finite and below \<open>2^63\<close>: the sample gives exactly \<open>\<lfloor>1/r\<rfloor>\<close> copies of one
  \<open>TimerEvent\<close>, and in the sequence that \<open>LineToEvents\<close> returns they stand together,
  right after the events of the samples before.
\<close>

theorem LineToEvents_timer_one_rate:
  assumes "samples_of_line env line c = Some (metric, st1, before @ sample # after)"
    and "st = foldl (sample_step env metric) st1 before"
    and "Split sample CHR ''|'' = valueStr # statType # mods"
    and "isTimer statType"
    and "length mods \<le> 2"
    and "mods = pre @ (CHR ''@'' # rs) # post"
    and "\<forall>m \<in> set (pre @ post). m \<noteq> [] \<and> hd m \<noteq> CHR ''@''"
    and "ParseFloat env valueStr = (v, None)"
    and "ParseFloat env rs = (r, None)"
    and "flt (Finite 0) r" and "fle r (Finite 1)"
    and "fdiv (Finite 1) r = Finite x" and "x < 2 ^ 63"
  shows "\<exists>lbls zs.
           events (sample_step env metric st sample)
             = events st @ replicate (nat \<lfloor>x\<rfloor>) (TimerEvent metric v lbls)
         \<and> fst (LineToEvents env line c)
             = events st @ replicate (nat \<lfloor>x\<rfloor>) (TimerEvent metric v lbls) @ zs"
proof -
  have "\<not> feq0 r"
    using assms(10) by (rule flt_zero_not_feq0)
  then obtain lbls where "events (sample_step env metric st sample)
      = events st @ replicate (nat (float64_to_int (fdiv (Finite 1) r))) (TimerEvent metric v lbls)"
    using sample_step_timer_rate [OF assms(3-9)] by blast
  then have one: "events (sample_step env metric st sample)
      = events st @ replicate (nat \<lfloor>x\<rfloor>) (TimerEvent metric v lbls)"
    by (simp add: assms(12) nat_float64_to_int [OF assms(13)])
  obtain zs where "events (foldl (sample_step env metric) (sample_step env metric st sample) after)
      = events (sample_step env metric st sample) @ zs"
    using foldl_sample_step_events_append by blast
  then have "fst (LineToEvents env line c)
      = events st @ replicate (nat \<lfloor>x\<rfloor>) (TimerEvent metric v lbls) @ zs"
    using LineToEvents_at_sample [OF assms(1)] one assms(2) by simp
  with one show ?thesis by blast
qed

lemma timer_example_valid: "ValidString ''foo:1|ms|@0.5''"
  by code_simp

lemma timer_example_samples:
  "samples_of_line env0 ''foo:1|ms|@0.5'' counters0
     = Some (''foo'', \<lparr>labels = [], events = [], ctr = counters0\<rparr>, [] @ ''1|ms|@0.5'' # [])"
  by (simp add: samples_of_line_def SplitN2_def timer_example_valid parseNameAndTags_def
      HasPrefix_def Let_def)

theorem LineToEvents_timer_one_rate_witness:
  "samples_of_line env0 ''foo:1|ms|@0.5'' counters0
     = Some (''foo'', \<lparr>labels = [], events = [], ctr = counters0\<rparr>, [] @ ''1|ms|@0.5'' # []) \<and>
   Split ''1|ms|@0.5'' CHR ''|'' = ''1'' # ''ms'' # [''@0.5''] \<and>
   isTimer ''ms'' \<and> length [''@0.5''] \<le> 2 \<and>
   [''@0.5''] = [] @ (CHR ''@'' # ''0.5'') # [] \<and>
   ParseFloat env0 ''1'' = (Finite 1, None) \<and>
   ParseFloat env0 ''0.5'' = (Finite (1 / 2), None) \<and>
   flt (Finite 0) (Finite (1 / 2)) \<and> fle (Finite (1 / 2)) (Finite 1) \<and>
   fdiv (Finite 1) (Finite (1 / 2)) = Finite 2 \<and> (2 :: rat) < 2 ^ 63 \<and>
   (\<exists>lbls zs. fst (LineToEvents env0 ''foo:1|ms|@0.5'' counters0)
      = [TimerEvent ''foo'' (Finite 1) lbls, TimerEvent ''foo'' (Finite 1) lbls] @ zs)"
proof -
  have sp: "Split ''1|ms|@0.5'' CHR ''|'' = ''1'' # ''ms'' # [''@0.5'']"
    by simp
  have t: "isTimer ''ms''"
    by (simp add: isTimer_def)
  have l: "length [''@0.5''] \<le> 2"
    and m: "[''@0.5''] = [] @ (CHR ''@'' # ''0.5'') # []"
    and n: "\<forall>m \<in> set ([] @ []). m \<noteq> [] \<and> hd m \<noteq> CHR ''@''"
    by simp_all
  have v: "ParseFloat env0 ''1'' = (Finite 1, None)"
    and r: "ParseFloat env0 ''0.5'' = (Finite (1 / 2), None)"
    by (simp_all add: ParseFloat_dec_examples)
  have d: "fdiv (Finite 1) (Finite (1 / 2)) = Finite 2"
    by (simp add: fdiv_examples)
  have b: "(2 :: rat) < 2 ^ 63"
    by simp
  have two: "replicate 2 e = [e, e]" for e :: event
    by (simp add: numeral_2_eq_2)
  have "\<exists>lbls zs. fst (LineToEvents env0 ''foo:1|ms|@0.5'' counters0)
      = [TimerEvent ''foo'' (Finite 1) lbls, TimerEvent ''foo'' (Finite 1) lbls] @ zs"
    using LineToEvents_timer_one_rate
      [OF timer_example_samples _ sp t l m n v r half_in_unit d b,
       of "\<lparr>labels = [], events = [], ctr = counters0\<rparr>"]
    by (auto simp: two)
  then show ?thesis
    using timer_example_samples sp t v r half_in_unit d by simp
qed

text \<open>
  The claim as it stands fails in two ways. With two sample-rate modifiers the last one
  decides: \<open>foo:1|ms|@0.5|@0.25\<close> carries the rate 0.5 and gives 4 events, not 2. And the
  number of copies is a 64-bit \<open>int\<close>: for the rate \<open>2^-64\<close>, which is in (0,1], the
  quotient \<open>2^64\<close> does not fit, the conversion gives a negative number and no event is
  emitted.
\<close>

lemma last_rate_valid: "ValidString ''foo:1|ms|@0.5|@0.25''"
  by code_simp

lemma last_rate_samples:
  "samples_of_line env0 ''foo:1|ms|@0.5|@0.25'' counters0
     = Some (''foo'', \<lparr>labels = [], events = [], ctr = counters0\<rparr>, [''1|ms|@0.5|@0.25''])"
  by (simp add: samples_of_line_def SplitN2_def last_rate_valid parseNameAndTags_def
      HasPrefix_def Let_def)

lemma floor_half: "\<lfloor>1 / 2 :: rat\<rfloor> = 0"
  by (rule floor_unique) simp_all

lemma float64_to_int_examples:
  "float64_to_int (Finite 2) = 2"
  "float64_to_int (Finite 4) = 4"
  "float64_to_int (Finite (1 / 2)) = 0"
  "float64_to_int (Finite 18446744073709551616) = - 9223372036854775808"
  by (simp_all add: float64_to_int_def trunc_def MinInt64_def floor_half)

lemma last_rate_events:
  "fst (LineToEvents env0 ''foo:1|ms|@0.5|@0.25'' counters0)
     = replicate 4 (TimerEvent ''foo'' (Finite 1) [])"
proof -
  let ?st = "\<lparr>labels = [], events = [], ctr = counters0\<rparr>"
  let ?vs = "\<lparr>samplingFactor = Finite (1 / 4), sample_value = Finite 1, multiplyEvents = 4\<rparr>"
  have sp: "Split ''1|ms|@0.5|@0.25'' CHR ''|'' = ''1'' # ''ms'' # [''@0.5'', ''@0.25'']"
    by simp
  have fl: "foldl (modifier_step env0 ''ms'')
              (\<lparr>samplingFactor = Finite 1, sample_value = Finite 1, multiplyEvents = 1\<rparr>,
               inc_samplesReceived ?st) [''@0.5'', ''@0.25'']
            = (?vs, inc_samplesReceived ?st)"
    by (simp add: modifier_step_def ParseFloat_dec_examples fdiv_examples feq0_def
        float64_to_int_examples)
  have "sample_step env0 ''foo'' ?st ''1|ms|@0.5|@0.25''
          = build_loop ''ms'' ''foo'' (Finite 1) (is_relative ''1'') (nat 4) (inc_samplesReceived ?st)"
    using sample_step_run [OF sp _ _ _ fl, of "''foo''"]
    by (simp add: ParseFloat_dec_examples)
  also have "\<dots> = (inc_samplesReceived ?st)\<lparr>events := events (inc_samplesReceived ?st)
      @ replicate (nat 4) (TimerEvent ''foo'' (Finite 1) (labels (inc_samplesReceived ?st)))\<rparr>"
    by (rule build_loop_Inr) (simp add: buildEvent_def)
  finally show ?thesis
    by (simp add: LineToEvents_samples [OF last_rate_samples])
qed

lemma tiny_rate_valid:
  "ValidString ''foo:1|ms|@5.42101086242752217003726400434970855712890625e-20''"
  by code_simp

lemma tiny_rate_samples:
  "samples_of_line env0 ''foo:1|ms|@5.42101086242752217003726400434970855712890625e-20'' counters0
     = Some (''foo'', \<lparr>labels = [], events = [], ctr = counters0\<rparr>,
             [''1|ms|@5.42101086242752217003726400434970855712890625e-20''])"
  by (simp add: samples_of_line_def SplitN2_def tiny_rate_valid parseNameAndTags_def
      HasPrefix_def Let_def)

lemma tiny_rate_events:
  "fst (LineToEvents env0 ''foo:1|ms|@5.42101086242752217003726400434970855712890625e-20''
          counters0) = []"
proof -
  let ?st = "\<lparr>labels = [], events = [], ctr = counters0\<rparr>"
  let ?vs = "\<lparr>samplingFactor = Finite (1 / 18446744073709551616), sample_value = Finite 1,
              multiplyEvents = - 9223372036854775808\<rparr>"
  have sp: "Split ''1|ms|@5.42101086242752217003726400434970855712890625e-20'' CHR ''|''
              = ''1'' # ''ms'' # [''@5.42101086242752217003726400434970855712890625e-20'']"
    by simp
  have fl: "foldl (modifier_step env0 ''ms'')
              (\<lparr>samplingFactor = Finite 1, sample_value = Finite 1, multiplyEvents = 1\<rparr>,
               inc_samplesReceived ?st) [''@5.42101086242752217003726400434970855712890625e-20'']
            = (?vs, inc_samplesReceived ?st)"
    by (simp add: modifier_step_def ParseFloat_dec_examples ParseFloat_dec_tiny fdiv_examples
        feq0_def float64_to_int_examples)
  have "sample_step env0 ''foo'' ?st ''1|ms|@5.42101086242752217003726400434970855712890625e-20''
          = build_loop ''ms'' ''foo'' (Finite 1) (is_relative ''1'') (nat (- 9223372036854775808))
              (inc_samplesReceived ?st)"
    using sample_step_run [OF sp _ _ _ fl, of "''foo''"]
    by (simp add: ParseFloat_dec_examples)
  then show ?thesis
    by (simp add: LineToEvents_samples [OF tiny_rate_samples])
qed

theorem timer_rate_counterexample:
  "ParseFloat env0 ''0.5'' = (Finite (1 / 2), None) \<and>
   flt (Finite 0) (Finite (1 / 2)) \<and> fle (Finite (1 / 2)) (Finite 1) \<and>
   fdiv (Finite 1) (Finite (1 / 2)) = Finite 2 \<and>
   length (fst (LineToEvents env0 ''foo:1|ms|@0.5|@0.25'' counters0)) = 4 \<and>
   ParseFloat env0 ''5.42101086242752217003726400434970855712890625e-20''
     = (Finite (1 / 2 ^ 64), None) \<and>
   flt (Finite 0) (Finite (1 / 2 ^ 64)) \<and> fle (Finite (1 / 2 ^ 64)) (Finite 1) \<and>
   fdiv (Finite 1) (Finite (1 / 2 ^ 64)) = Finite (2 ^ 64) \<and>
   length (fst (LineToEvents env0
      ''foo:1|ms|@5.42101086242752217003726400434970855712890625e-20'' counters0)) = 0"
  by (simp add: last_rate_events tiny_rate_events ParseFloat_dec_examples ParseFloat_dec_tiny
      fdiv_examples half_in_unit flt_def fle_def fisNaN_def fneg_def fmag_def)



section \<open>The quotient 1/r for rates outside (0,1]\<close>

lemma ilog2_nonneg:
  assumes "1 \<le> a"
  shows "0 \<le> ilog2 a"
proof -
  from assms have "1 \<le> \<lfloor>a\<rfloor>" by (simp add: le_floor_iff)
  from bitlen_ge1 [OF this] assms show ?thesis by (simp add: ilog2_def)
qed

lemma ilog2_neg:
  assumes "0 < a" and "a < 1"
  shows "ilog2 a \<le> - 1"
proof -
  from assms have "1 < 1 / a" by simp
  then have "1 < \<lceil>1 / a\<rceil>" by (simp add: less_ceiling_iff)
  then have "1 \<le> \<lceil>1 / a\<rceil> - 1" by simp
  from bitlen_ge1 [OF this] assms show ?thesis by (simp add: ilog2_def)
qed

lemma round64_Finite_value:
  assumes "round64 neg a = Finite b" and "b \<noteq> 0"
  shows "of_int (round_half_even (a / pow2 (max (ilog2 a) (- 1022) - 52)))
           * pow2 (max (ilog2 a) (- 1022) - 52) = (if neg then - b else b)"
  using assms by (auto simp: round64_def round64_at_def round64_pack_def split: if_splits)

text \<open>A float64 above 1 is at least the next one after 1.\<close>

lemma float64_above_one:
  assumes "1 < a" and "round64 False a = Finite a"
  shows "1 + pow2 (- 52) \<le> a"
proof -
  define e where "e = max (ilog2 a) (- 1022)"
  define n where "n = round_half_even (a / pow2 (e - 52))"
  have e: "0 \<le> e"
    using ilog2_nonneg [of a] assms(1) by (simp add: e_def)
  have "of_int n * pow2 (e - 52) = a"
    using round64_Finite_value [OF assms(2)] assms(1) by (simp add: n_def e_def)
  moreover have "pow2 (e - 52) = of_int (2 ^ nat e) * pow2 (- 52)"
  proof -
    have "pow2 (e - 52) = pow2 (e + (- 52))" by simp
    also have "\<dots> = pow2 e * pow2 (- 52)" by (rule pow2_add)
    finally show ?thesis using e by (simp add: pow2_nat)
  qed
  ultimately have a: "a = of_int (n * 2 ^ nat e) * pow2 (- 52)"
    by simp
  have one: "(1 :: rat) = of_int (2 ^ 52) * pow2 (- 52)"
    by (simp add: pow2_def)
  have "of_int (2 ^ 52) * pow2 (- 52) < of_int (n * 2 ^ nat e) * pow2 (- 52)"
    using assms(1) a one by simp
  then have "(of_int (2 ^ 52) :: rat) < of_int (n * 2 ^ nat e)"
    by (simp only: mult_less_cancel_right_pos [OF pow2_pos])
  then have "2 ^ 52 < n * 2 ^ nat e"
    by (simp only: of_int_less_iff)
  then have "2 ^ 52 + 1 \<le> n * 2 ^ nat e"
    by simp
  then have "(of_int (2 ^ 52 + 1) :: rat) \<le> of_int (n * 2 ^ nat e)"
    by (simp only: of_int_le_iff)
  then have le: "of_int (2 ^ 52 + 1) * pow2 (- 52) \<le> of_int (n * 2 ^ nat e) * pow2 (- 52)"
    by (simp only: mult_le_cancel_right_pos [OF pow2_pos])
  have "1 + pow2 (- 52) = of_int (2 ^ 52 + 1) * pow2 (- 52)"
    by (simp add: pow2_def)
  also note le
  also have "of_int (n * 2 ^ nat e) * pow2 (- 52) = a"
    by (rule a [symmetric])
  finally show ?thesis .
qed

text \<open>Anything positive up to the reciprocal of that float64 rounds to a value below 1.\<close>

lemma round64_below_one:
  assumes "0 < b" and "b \<le> 1 / (1 + pow2 (- 52))"
  shows "\<exists>v. round64 False b = Finite v \<and> 0 \<le> v \<and> v < 1"
proof -
  define e where "e = max (ilog2 b) (- 1022)"
  define u where "u = pow2 (e - 52)"
  define n where "n = round_half_even (b / u)"
  define v where "v = of_int n * u"
  have "1 / (1 + pow2 (- 52)) < 1"
    by (simp add: pow2_def)
  with assms(2) have b1: "b < 1" by simp
  have "e \<le> - 1"
    using ilog2_neg [OF assms(1) b1] by (simp add: e_def)
  then have "u \<le> pow2 (- 53)"
    unfolding u_def by (intro pow2_mono) simp
  have u: "0 < u"
    by (simp add: u_def)
  have "of_int 0 \<le> b / u"
    using assms(1) u by simp
  then have "0 \<le> n"
    unfolding n_def by (rule round_half_even_ge)
  then have v0: "0 \<le> v"
    using u by (simp add: v_def)
  have "of_int n \<le> b / u + 1 / 2"
    unfolding n_def by (rule round_half_even_le)
  then have "of_int n * u \<le> (b / u + 1 / 2) * u"
    using u by (simp only: mult_le_cancel_right_pos)
  also have "\<dots> = b + u / 2"
    using u by (simp add: field_simps)
  finally have "v \<le> b + u / 2"
    by (simp add: v_def)
  also have "\<dots> \<le> 1 / (1 + pow2 (- 52)) + pow2 (- 53) / 2"
    using assms(2) \<open>u \<le> pow2 (- 53)\<close> by simp
  also have "\<dots> < 1"
    by (simp add: pow2_def)
  finally have v1: "v < 1" .
  have "\<not> pow2 1024 \<le> v"
  proof -
    have "(1 :: rat) \<le> pow2 1024" by (simp add: pow2_def)
    with v1 show ?thesis by simp
  qed
  then have "round64 False b = (if v = 0 then Finite 0 else Finite v)"
    by (simp add: round64_def round64_at_def round64_pack_def e_def [symmetric]
        u_def [symmetric] n_def [symmetric] v_def [symmetric])
  with v0 v1 show ?thesis
    by auto
qed

lemma float64_to_int_fdiv_above_one:
  assumes "1 < a" and "round64 False a = Finite a"
  shows "float64_to_int (fdiv (Finite 1) (Finite a)) = 0"
proof -
  have a: "1 + pow2 (- 52) \<le> a"
    using assms by (rule float64_above_one)
  have "0 < 1 + pow2 (- 52)"
    by (simp add: add_pos_pos)
  then have "1 / a \<le> 1 / (1 + pow2 (- 52))"
    using a by (simp add: frac_le)
  moreover have "0 < 1 / a"
    using assms(1) by simp
  ultimately obtain v where v: "round64 False (1 / a) = Finite v" "0 \<le> v" "v < 1"
    using round64_below_one by blast
  have "fdiv (Finite 1) (Finite a) = round64 False (1 / a)"
    using assms(1) by (simp add: fdiv_def fisNaN_def fisInf_def feq0_def fneg_def fmag_def)
  moreover have "\<lfloor>v\<rfloor> = 0"
    using v(2,3) by (simp add: floor_eq_iff)
  ultimately show ?thesis
    using v by (simp add: float64_to_int_def trunc_def MinInt64_def)
qed

lemma float64_to_int_fdiv_negative:
  assumes "a < 0"
  shows "float64_to_int (fdiv (Finite 1) (Finite a)) \<le> 0"
proof -
  define b where "b = 1 / \<bar>a\<bar>"
  define u where "u = pow2 (max (ilog2 b) (- 1022) - 52)"
  define v where "v = of_int (round_half_even (b / u)) * u"
  have u: "0 < u"
    by (simp add: u_def)
  have "0 < b"
    using assms by (simp add: b_def)
  then have "of_int 0 \<le> b / u"
    using u by simp
  then have "0 \<le> round_half_even (b / u)"
    by (rule round_half_even_ge)
  then have v: "0 \<le> v"
    using u by (simp add: v_def)
  have "fdiv (Finite 1) (Finite a) = round64_pack True v"
    using assms
    by (simp add: fdiv_def fisNaN_def fisInf_def feq0_def fneg_def fmag_def round64_def
        round64_at_def b_def u_def v_def)
  moreover have "float64_to_int (round64_pack True v) \<le> 0"
  proof -
    have "\<lceil>- v\<rceil> \<le> 0"
      using v by (simp add: ceiling_le_iff)
    then show ?thesis
      using v by (simp add: round64_pack_def float64_to_int_def trunc_def MinInt64_def)
  qed
  ultimately show ?thesis
    by simp
qed

text \<open>For a rate above 1 or below 0 the number of copies is not positive.\<close>

lemma copies_outside_unit:
  assumes "is_float64 r" and "flt (Finite 1) r \<or> flt r (Finite 0)"
  shows "nat (float64_to_int (fdiv (Finite 1) r)) = 0 \<and> \<not> feq0 r"
proof (cases r)
  case (Finite a)
  from assms(2) Finite have "1 < a \<or> a < 0"
    by (auto simp: flt_def fle_def fisNaN_def fneg_def fmag_def split: if_splits)
  then show ?thesis
  proof
    assume a: "1 < a"
    with assms(1) Finite have "round64 False a = Finite a"
      by (simp add: is_float64_def)
    from float64_to_int_fdiv_above_one [OF a this] a Finite show ?thesis
      by (simp add: feq0_def)
  next
    assume a: "a < 0"
    from float64_to_int_fdiv_negative [OF a] a Finite show ?thesis
      by (simp add: feq0_def)
  qed
next
  case NegZero
  with assms(2) show ?thesis
    by (simp add: flt_def fle_def fisNaN_def fneg_def fmag_def)
next
  case PosInf
  then show ?thesis
    by (simp add: fdiv_def fisNaN_def fisInf_def feq0_def fneg_def float64_to_int_def trunc_def
        MinInt64_def)
next
  case NegInf
  then show ?thesis
    by (simp add: fdiv_def fisNaN_def fisInf_def feq0_def fneg_def float64_to_int_def)
next
  case NaN
  with assms(2) show ?thesis
    by (simp add: flt_def fle_def fisNaN_def)
qed


section \<open>Timers with a sample rate outside (0,1]\<close>

lemma foldl_modifier_step_tags:
  assumes "\<forall>m \<in> set ms. m \<noteq> [] \<and> hd m = CHR ''#''"
  shows "foldl (modifier_step env t) (vs, s) ms
           = (vs, foldl (\<lambda>s m. ParseDogStatsDTags env (tl m) s) s ms)"
  using assms
proof (induction ms arbitrary: s)
  case Nil
  then show ?case by simp
next
  case (Cons m ms)
  then obtain payload where m: "m = CHR ''#'' # payload"
    by (cases m) auto
  have "modifier_step env t (vs, s) m = (vs, ParseDogStatsDTags env payload s)"
    by (simp add: m modifier_step_def)
  with Cons show ?case
    by (simp add: m)
qed

lemma modifier_step_rate_state:
  assumes "ParseFloat env rs = (r, None)"
  shows "snd (modifier_step env t (vs, s) (CHR ''@'' # rs)) = s"
  using assms by (simp add: modifier_step_def Let_def)

lemma foldl_modifier_step_rate_and_tags:
  assumes "\<forall>m \<in> set (pre @ post). m \<noteq> [] \<and> hd m = CHR ''#''"
    and "ParseFloat env rs = (r, None)"
  shows "snd (foldl (modifier_step env t) (vs, s) (pre @ (CHR ''@'' # rs) # post))
           = foldl (\<lambda>s m. ParseDogStatsDTags env (tl m) s) s (pre @ post)"
proof -
  let ?tags = "\<lambda>s m. ParseDogStatsDTags env (tl m) s"
  have pre: "foldl (modifier_step env t) (vs, s) pre = (vs, foldl ?tags s pre)"
    using assms(1) by (intro foldl_modifier_step_tags) simp
  obtain vs' where mid: "modifier_step env t (vs, foldl ?tags s pre) (CHR ''@'' # rs)
      = (vs', foldl ?tags s pre)"
    using modifier_step_rate_state [OF assms(2), of t vs "foldl ?tags s pre"]
    by (metis prod.collapse)
  have post: "foldl (modifier_step env t) (vs', foldl ?tags s pre) post
      = (vs', foldl ?tags (foldl ?tags s pre) post)"
    using assms(1) by (intro foldl_modifier_step_tags) simp
  show ?thesis
    by (simp add: pre mid post)
qed

lemma foldl_ParseDogStatsDTags_keeps:
  "events (foldl (\<lambda>s m. ParseDogStatsDTags env (tl m) s) s ms) = events s"
  "sampleErrors (ctr (foldl (\<lambda>s m. ParseDogStatsDTags env (tl m) s) s ms)) = sampleErrors (ctr s)"
  "samplesReceived (ctr (foldl (\<lambda>s m. ParseDogStatsDTags env (tl m) s) s ms))
     = samplesReceived (ctr s)"
  by (induction ms arbitrary: s) (simp_all add: ParseDogStatsDTags_keeps)

lemma inc_counters [simp]:
  "samplesReceived (ctr (inc_samplesReceived st)) = samplesReceived (ctr st) + 1"
  "sampleErrors (ctr (inc_samplesReceived st)) = sampleErrors (ctr st)"
  "tagErrors (ctr (inc_samplesReceived st)) = tagErrors (ctr st)"
  "samplesReceived (ctr (inc_tagsReceived st)) = samplesReceived (ctr st)"
  "sampleErrors (ctr (inc_tagsReceived st)) = sampleErrors (ctr st)"
  "tagErrors (ctr (inc_tagsReceived st)) = tagErrors (ctr st)"
  by (simp_all add: inc_samplesReceived_def inc_tagsReceived_def)


lemma outside_example_valid: "ValidString ''foo:1|ms|@2''"
  by code_simp

lemma outside_example_samples:
  "samples_of_line env0 ''foo:1|ms|@2'' counters0
     = Some (''foo'', \<lparr>labels = [], events = [], ctr = counters0\<rparr>, [] @ ''1|ms|@2'' # [])"
  by (simp add: samples_of_line_def SplitN2_def outside_example_valid parseNameAndTags_def
      HasPrefix_def Let_def)



text \<open>
  The claim as it stands fails when a sample has two sample-rate modifiers, because the
  number of copies is assigned anew at each of them: in \<open>foo:1|ms|@2|@0.5\<close> the modifier
  \<open>@2\<close> parses to a rate above 1, and the line gives 2 events, the count of the last
  modifier, with no error counted.
\<close>

lemma two_rates_outside_valid: "ValidString ''foo:1|ms|@2|@0.5''"
  by code_simp

lemma two_rates_outside_samples:
  "samples_of_line env0 ''foo:1|ms|@2|@0.5'' counters0
     = Some (''foo'', \<lparr>labels = [], events = [], ctr = counters0\<rparr>, [''1|ms|@2|@0.5''])"
  by (simp add: samples_of_line_def SplitN2_def two_rates_outside_valid parseNameAndTags_def
      HasPrefix_def Let_def)

lemma two_rates_outside_result:
  "LineToEvents env0 ''foo:1|ms|@2|@0.5'' counters0
     = ([TimerEvent ''foo'' (Finite 1) [], TimerEvent ''foo'' (Finite 1) []],
        counters0\<lparr>samplesReceived := samplesReceived counters0 + 1\<rparr>)"
proof -
  let ?st = "\<lparr>labels = [], events = [], ctr = counters0\<rparr>"
  let ?vs = "\<lparr>samplingFactor = Finite (1 / 2), sample_value = Finite 1, multiplyEvents = 2\<rparr>"
  have sp: "Split ''1|ms|@2|@0.5'' CHR ''|'' = ''1'' # ''ms'' # [''@2'', ''@0.5'']"
    by simp
  have fl: "foldl (modifier_step env0 ''ms'')
              (\<lparr>samplingFactor = Finite 1, sample_value = Finite 1, multiplyEvents = 1\<rparr>,
               inc_samplesReceived ?st) [''@2'', ''@0.5'']
            = (?vs, inc_samplesReceived ?st)"
    by (simp add: modifier_step_def ParseFloat_dec_examples fdiv_examples feq0_def
        float64_to_int_examples)
  have two: "replicate (nat 2) e = [e, e]" for e :: event
    by (simp add: numeral_2_eq_2)
  have "sample_step env0 ''foo'' ?st ''1|ms|@2|@0.5''
          = build_loop ''ms'' ''foo'' (Finite 1) (is_relative ''1'') (nat 2) (inc_samplesReceived ?st)"
    using sample_step_run [OF sp _ _ _ fl, of "''foo''"]
    by (simp add: ParseFloat_dec_examples)
  also have "\<dots> = (inc_samplesReceived ?st)\<lparr>events := events (inc_samplesReceived ?st)
      @ replicate (nat 2) (TimerEvent ''foo'' (Finite 1) (labels (inc_samplesReceived ?st)))\<rparr>"
    by (rule build_loop_Inr) (simp add: buildEvent_def)
  also have "\<dots> = \<lparr>labels = [],
      events = [TimerEvent ''foo'' (Finite 1) [], TimerEvent ''foo'' (Finite 1) []],
      ctr = counters0\<lparr>samplesReceived := samplesReceived counters0 + 1\<rparr>\<rparr>"
    by (simp only: two) (simp add: inc_samplesReceived_def)
  finally show ?thesis
    by (simp add: LineToEvents_samples [OF two_rates_outside_samples])
qed

lemma counters0_fields:
  "sampleErrors counters0 = (\<lambda>r. 0)" "samplesReceived counters0 = 0" "tagErrors counters0 = 0"
  by (simp_all add: counters0_def)



section \<open>Sample rates that do not parse, and the rate 0\<close>

text \<open>Dividing a float64 by 1 gives it back.\<close>

lemma fdiv_by_one:
  assumes "is_float64 x"
  shows "fdiv x (Finite 1) = x"
proof (cases x)
  case (Finite a)
  show ?thesis
  proof (cases "a = 0")
    case True
    with Finite show ?thesis
      by (simp add: fdiv_def fisNaN_def fisInf_def feq0_def fneg_def)
  next
    case False
    with assms Finite have "round64 (a < 0) \<bar>a\<bar> = Finite a"
      by (simp add: is_float64_def)
    with False Finite show ?thesis
      by (simp add: fdiv_def fisNaN_def fisInf_def feq0_def fneg_def fmag_def)
  qed
qed (simp_all add: fdiv_def fisNaN_def fisInf_def feq0_def fneg_def)

lemma modifier_step_rate_zero:
  assumes "ParseFloat env rs = (r, err)" and "feq0 r"
    and "t = ''c'' \<or> t = ''g'' \<or> isTimer t"
    and "is_float64 (sample_value vs)" and "multiplyEvents vs = 1"
  shows "sample_value (fst (modifier_step env t (vs, s) (CHR ''@'' # rs))) = sample_value vs"
    and "multiplyEvents (fst (modifier_step env t (vs, s) (CHR ''@'' # rs))) = 1"
    and "snd (modifier_step env t (vs, s) (CHR ''@'' # rs))
           = (if err \<noteq> None then inc_sampleErrors invalid_sample_factor s else s)"
  using assms
  by (auto simp: modifier_step_def Let_def isTimer_def fdiv_by_one fdiv_examples
      float64_to_int_def trunc_def MinInt64_def)

text \<open>
  The part of C7 that the code keeps. When \<^verbatim>\<open>ParseFloat\<close> returns zero for the payload of the
  only sample-rate modifier (as it does at a syntax error, and for a literal that is zero),
  a counter, gauge or timer sample gives exactly one event with the value as parsed, and
  \<open>invalid_sample_factor\<close> is counted exactly when \<^verbatim>\<open>ParseFloat\<close> returned an error.
\<close>

lemma sample_step_rate_zero:
  assumes "Split sample CHR ''|'' = valueStr # statType # [CHR ''@'' # rs]"
    and "statType = ''c'' \<or> statType = ''g'' \<or> isTimer statType"
    and "ParseFloat env valueStr = (v, None)" and "is_float64 v"
    and "ParseFloat env rs = (r, err)" and "feq0 r"
    and "buildEvent statType metric v (is_relative valueStr) (labels st) = Inr ev"
  shows "events (sample_step env metric st sample) = events st @ [ev]"
    and "sampleErrors (ctr (sample_step env metric st sample))
           = (if err \<noteq> None
              then (sampleErrors (ctr st))
                     (invalid_sample_factor := sampleErrors (ctr st) invalid_sample_factor + 1)
              else sampleErrors (ctr st))"
proof -
  let ?vs0 = "\<lparr>samplingFactor = Finite 1, sample_value = v, multiplyEvents = 1\<rparr>"
  let ?s0 = "inc_samplesReceived st"
  let ?s1 = "if err \<noteq> None then inc_sampleErrors invalid_sample_factor ?s0 else ?s0"
  obtain vs where fl: "foldl (modifier_step env statType) (?vs0, ?s0) [CHR ''@'' # rs] = (vs, ?s1)"
    using modifier_step_rate_zero(3) [OF assms(5,6,2), of ?vs0 ?s0] assms(4)
    by (cases "modifier_step env statType (?vs0, ?s0) (CHR ''@'' # rs)") simp
  have vs: "sample_value vs = v" "multiplyEvents vs = 1"
    using modifier_step_rate_zero(1,2) [OF assms(5,6,2), of ?vs0 ?s0] assms(4) fl by simp_all
  let ?s2 = "if 0 < length (labels ?s1) then inc_tagsReceived ?s1 else ?s1"
  have "labels ?s2 = labels st"
    by simp
  then have "buildEvent statType metric v (is_relative valueStr) (labels ?s2) = Inr ev"
    using assms(7) by (simp only:)
  then have "build_loop statType metric v (is_relative valueStr) (nat 1) ?s2
               = ?s2\<lparr>events := events ?s2 @ replicate (nat 1) ev\<rparr>"
    by (rule build_loop_Inr)
  moreover have "sample_step env metric st sample
                   = build_loop statType metric v (is_relative valueStr) (nat 1) ?s2"
    using sample_step_run [OF assms(1) _ _ assms(3) fl, of metric] vs by simp
  ultimately have S: "sample_step env metric st sample
                        = ?s2\<lparr>events := events ?s2 @ replicate (nat 1) ev\<rparr>"
    by simp
  show "events (sample_step env metric st sample) = events st @ [ev]"
    unfolding S by simp
  show "sampleErrors (ctr (sample_step env metric st sample))
           = (if err \<noteq> None
              then (sampleErrors (ctr st))
                     (invalid_sample_factor := sampleErrors (ctr st) invalid_sample_factor + 1)
              else sampleErrors (ctr st))"
    unfolding S by (simp add: inc_sampleErrors_def sampleErrors_Inc_def)
qed

text \<open>
  C7 at a payload that is rejected as out of range. \<^verbatim>\<open>ParseFloat\<close> returns the infinity together
  with the error; the error is counted, and the infinity stays the rate: the counter of
  \<open>foo:1|c|@1e309\<close> is emitted with the value 0, not with its literal value 1.
\<close>

lemma out_of_range_valid: "ValidString ''foo:1|c|@1e309''"
  by code_simp

lemma out_of_range_samples:
  "samples_of_line env0 ''foo:1|c|@1e309'' counters0
     = Some (''foo'', \<lparr>labels = [], events = [], ctr = counters0\<rparr>, [''1|c|@1e309''])"
  by (simp add: samples_of_line_def SplitN2_def out_of_range_valid parseNameAndTags_def
      HasPrefix_def Let_def)

theorem sample_rate_out_of_range:
  "ParseFloat env0 ''1e309'' = (PosInf, Some ErrRange) \<and>
   fst (LineToEvents env0 ''foo:1|c|@1e309'' counters0) = [CounterEvent ''foo'' (Finite 0) []] \<and>
   sampleErrors (snd (LineToEvents env0 ''foo:1|c|@1e309'' counters0)) invalid_sample_factor = 1"
proof -
  let ?st = "\<lparr>labels = [], events = [], ctr = counters0\<rparr>"
  let ?s1 = "inc_sampleErrors invalid_sample_factor (inc_samplesReceived ?st)"
  let ?vs = "\<lparr>samplingFactor = PosInf, sample_value = Finite 0, multiplyEvents = 1\<rparr>"
  have sp: "Split ''1|c|@1e309'' CHR ''|'' = ''1'' # ''c'' # [''@1e309'']"
    by simp
  have fl: "foldl (modifier_step env0 ''c'')
              (\<lparr>samplingFactor = Finite 1, sample_value = Finite 1, multiplyEvents = 1\<rparr>,
               inc_samplesReceived ?st) [''@1e309'']
            = (?vs, ?s1)"
    by (simp add: modifier_step_def ParseFloat_dec_1e309 fdiv_examples feq0_def)
  have "sample_step env0 ''foo'' ?st ''1|c|@1e309''
          = build_loop ''c'' ''foo'' (Finite 0) (is_relative ''1'') (nat 1) ?s1"
    using sample_step_run [OF sp _ _ _ fl, of "''foo''"]
    by (simp add: ParseFloat_dec_examples)
  also have "\<dots> = ?s1\<lparr>events := events ?s1
      @ replicate (nat 1) (CounterEvent ''foo'' (Finite 0) (labels ?s1))\<rparr>"
    by (rule build_loop_Inr) (simp add: buildEvent_def)
  finally have "sample_step env0 ''foo'' ?st ''1|c|@1e309''
      = ?s1\<lparr>events := events ?s1
          @ replicate (nat 1) (CounterEvent ''foo'' (Finite 0) (labels ?s1))\<rparr>" .
  moreover have "sampleErrors counters0 invalid_sample_factor = 0"
    by (simp add: counters0_def)
  ultimately show ?thesis
    by (simp add: LineToEvents_samples [OF out_of_range_samples] ParseFloat_dec_1e309
        inc_sampleErrors_def sampleErrors_Inc_def inc_samplesReceived_def)
qed

end
